theory Spec2Isabelle
  imports Main "HOL-Library.Sublist" "HOL-Library.AList"
begin

section \<open>Python strings, paths and files\<close>

text \<open>
  Python strings are modelled as \<open>string\<close> (lists of 8-bit characters, so the
  model covers ASCII text). The characters that cannot be written inside a string
  literal are named here.
\<close>

definition newline :: char where
  "newline = CHR 0x0A"

definition backquote :: char where
  "backquote = CHR 0x60"

definition dquote :: char where
  "dquote = CHR 0x22"

definition squote :: char where
  "squote = CHR 0x27"

text \<open>\<open>word in line\<close>: the substring test of Python.\<close>

fun contains :: "string \<Rightarrow> string \<Rightarrow> bool" where
  "contains w [] = (w = [])"
| "contains w (c # cs) = (prefix w (c # cs) \<or> contains w cs)"

text \<open>
  \<open>s.replace(old, new)\<close>: every occurrence of \<open>old\<close>, found scanning from the left
  and never overlapping a previous one, becomes \<open>new\<close>. For the empty \<open>old\<close> Python
  puts \<open>new\<close> before every character and at the end.
\<close>

function replace :: "string \<Rightarrow> string \<Rightarrow> string \<Rightarrow> string" where
  "replace old new [] = (if old = [] then new else [])"
| "replace old new (c # cs) =
     (if old = [] then new @ c # replace old new cs
      else if prefix old (c # cs) then new @ replace old new (drop (length old) (c # cs))
      else c # replace old new cs)"
  by pat_completeness auto
termination
  by (relation "measure (\<lambda>(old, new, s). length s)") auto

text \<open>\<open>s.upper()\<close> on ASCII text: the letters a to z move to A to Z.\<close>

definition upper_char :: "char \<Rightarrow> char" where
  "upper_char c =
     (let n = (of_char c :: nat) in if 97 \<le> n \<and> n \<le> 122 then char_of (n - 32) else c)"

definition upper :: "string \<Rightarrow> string" where
  "upper s = map upper_char s"

text \<open>
  \<open>open(p, "r")\<close> reads text with universal newlines: a carriage return followed by a
  line feed, and a carriage return alone, are both read as one line feed.
  \<open>file.readlines()\<close> is the text so read, cut after every line feed, each line keeping
  its line feed. \<open>file.writelines(lines)\<close> on a file opened with \<open>"w"\<close> writes the
  concatenation of the lines, a line feed staying a line feed (POSIX).
\<close>

definition carriage_return :: char where
  "carriage_return = CHR 0x0D"

fun universal_newlines :: "string \<Rightarrow> string" where
  "universal_newlines [] = []"
| "universal_newlines [c] = (if c = carriage_return then [newline] else [c])"
| "universal_newlines (c # d # cs) =
     (if c = carriage_return
      then (if d = newline then newline # universal_newlines cs
            else newline # universal_newlines (d # cs))
      else c # universal_newlines (d # cs))"

fun splitlines :: "string \<Rightarrow> string list" where
  "splitlines [] = []"
| "splitlines (c # cs) =
     (if c = newline then [c] # splitlines cs
      else (case splitlines cs of [] \<Rightarrow> [[c]] | l # ls \<Rightarrow> (c # l) # ls))"

definition readlines :: "string \<Rightarrow> string list" where
  "readlines s = splitlines (universal_newlines s)"

definition writelines :: "string list \<Rightarrow> string" where
  "writelines ls = concat ls"

text \<open>\<open>os.path.basename\<close>, \<open>os.path.dirname\<close> and \<open>os.path.join\<close> of two parts (POSIX).\<close>

definition slash :: char where
  "slash = CHR 0x2F"

definition basename :: "string \<Rightarrow> string" where
  "basename p = rev (takeWhile (\<lambda>c. c \<noteq> slash) (rev p))"

definition dirname :: "string \<Rightarrow> string" where
  "dirname p =
     (let hd_part = rev (dropWhile (\<lambda>c. c \<noteq> slash) (rev p))
      in if hd_part \<noteq> [] \<and> \<not> list_all (\<lambda>c. c = slash) hd_part
         then rev (dropWhile (\<lambda>c. c = slash) (rev hd_part))
         else hd_part)"

definition path_join :: "string \<Rightarrow> string \<Rightarrow> string" where
  "path_join a b =
     (if b \<noteq> [] \<and> hd b = slash then b
      else if a = [] \<or> last a = slash then a @ b
      else a @ [slash] @ b)"

text \<open>
  The file system: a path names a file or nothing. A file has its content, whether
  that content decodes as text (opening it with mode \<open>"r"\<close> and reading raises
  otherwise), and its permission bits \<open>st_mode\<close>.
\<close>

record regular_file =
  content :: string
  is_text :: bool
  st_mode :: nat

type_synonym filesystem = "string \<Rightarrow> regular_file option"

datatype error =
    KeyError string
  | TypeError string
  | AssertionError string
  | Exception string
  | FileNotFoundError string
  | SameFileError string
  | UnicodeDecodeError string
  | ModuleNotSetup
  | UnknownSubmoduleType string string

text \<open>\<open>os.path.isfile\<close>.\<close>

definition isfile :: "filesystem \<Rightarrow> string \<Rightarrow> bool" where
  "isfile fs p = (fs p \<noteq> None)"

text \<open>
  \<open>open(p, "w")\<close>, \<open>writelines\<close>, \<open>close\<close>: the file at \<open>p\<close> holds the text written; an
  existing file keeps its permission bits, a new one gets \<open>create_mode\<close> (0o666 under
  the usual umask 0o022).
\<close>

definition create_mode :: nat where
  "create_mode = 420"

definition write_text :: "string \<Rightarrow> string list \<Rightarrow> filesystem \<Rightarrow> filesystem" where
  "write_text p ls fs =
     fs(p \<mapsto> \<lparr>content = writelines ls, is_text = True,
              st_mode = (case fs p of None \<Rightarrow> create_mode | Some f \<Rightarrow> st_mode f)\<rparr>)"

text \<open>
  Python list indices: \<open>list.insert(i, x)\<close> counts a negative index from the end and
  clamps it into the list; \<open>xs[i]\<close> and \<open>xs[i] = v\<close> count a negative index from the
  end and raise an IndexError outside the list.
\<close>

definition list_insert :: "int \<Rightarrow> 'a \<Rightarrow> 'a list \<Rightarrow> 'a list" where
  "list_insert i x xs =
     (let n = int (length xs);
          j = (if i < 0 then max 0 (i + n) else min i n)
      in take (nat j) xs @ x # drop (nat j) xs)"

definition list_index :: "int \<Rightarrow> 'a list \<Rightarrow> nat option" where
  "list_index i xs =
     (let n = int (length xs);
          j = (if i < 0 then i + n else i)
      in if 0 \<le> j \<and> j < n then Some (nat j) else None)"

section \<open>createSystem.py: the template instantiation engine\<close>

text \<open>
  A peripheral instance is the dictionary with the keys \<open>type\<close>, \<open>name\<close> and \<open>params\<close>;
  \<open>params\<close> is a dictionary, read in insertion order. An internal wire is the dictionary
  with the keys \<open>n_bits\<close> (as it prints) and \<open>name\<close>.
\<close>

record peripheral =
  inst_type :: string
  inst_name :: string
  inst_params :: "(string \<times> string) list"

record wire =
  wire_n_bits :: string
  wire_name :: string

text \<open>
  \<open>createSystem.py\<close> imports its helpers from \<open>submodule_utils\<close> and \<open>ios\<close>, which are
  not among the sources. They are parameters of the model, by peripheral type:
  \<^item> \<open>absent_idx lines word\<close>: what \<open>find_idx\<close> returns when no line contains the word;
  \<^item> \<open>meta_name t\<close>: \<open>import_setup(submodule_dirs[t]).meta['name']\<close>;
  \<^item> \<open>top_list t\<close>: the third result of \<open>get_peripherals_ports_params_top\<close> at \<open>t\<close>;
  \<^item> \<open>reserved_signals t\<close>, \<open>pio_signals t\<close>: the names of the signals that
    \<open>get_reserved_signals\<close> and \<open>get_pio_signals\<close> select from \<open>port_list[t]\<close>, in order;
  \<^item> \<open>reserved_signal_connection\<close>: \<open>get_reserved_signal_connection\<close>;
  \<^item> \<open>peripheral_port_mapping\<close>: \<open>ios.get_peripheral_port_mapping\<close>.
\<close>

record helpers =
  absent_idx :: "string list \<Rightarrow> string \<Rightarrow> int"
  meta_name :: "string \<Rightarrow> string"
  top_list :: "string \<Rightarrow> string"
  reserved_signals :: "string \<Rightarrow> string list"
  pio_signals :: "string \<Rightarrow> string list"
  reserved_signal_connection :: "string \<Rightarrow> string \<Rightarrow> string \<Rightarrow> string"
  peripheral_port_mapping :: "peripheral \<Rightarrow> string \<Rightarrow> string"

fun first_idx :: "string list \<Rightarrow> string \<Rightarrow> nat option" where
  "first_idx [] word = None"
| "first_idx (l # ls) word =
     (if contains word l then Some 0
      else (case first_idx ls word of None \<Rightarrow> None | Some i \<Rightarrow> Some (Suc i)))"

text \<open>
  Modelled from the spec: \<open>find_idx\<close> of \<open>submodule_utils\<close>, which is not among the
  sources. The spec has the include lines inserted "immediately after the header marker"
  (the code inserts at \<open>find_idx\<close>), the instance bodies "directly above the
  closing-keyword anchor" (the code inserts at \<open>find_idx - 1\<close>) and the wires "directly
  after the module's port-list-end anchor" (at \<open>find_idx\<close>): \<open>find_idx\<close> is the index just
  after the first line that contains the word. The spec does not say what it is when no
  line contains the word: that is the parameter \<open>absent_idx\<close>.
\<close>

definition find_idx :: "helpers \<Rightarrow> string list \<Rightarrow> string \<Rightarrow> int" where
  "find_idx h lines word =
     (case first_idx lines word of
        Some i \<Rightarrow> int i + 1
      | None \<Rightarrow> absent_idx h lines word)"

definition include_line :: "string \<Rightarrow> string" where
  "include_line top_name = [backquote] @ ''include '' @ [dquote] @ top_name @ ''_swreg_def.vh'' @ [dquote, newline]"

fun insert_header_loop ::
  "helpers \<Rightarrow> int \<Rightarrow> peripheral list \<Rightarrow> string list \<Rightarrow> string list \<Rightarrow> string list" where
  "insert_header_loop h header_index [] included_peripherals template_contents =
     template_contents"
| "insert_header_loop h header_index (instance # rest) included_peripherals template_contents =
     (if inst_type instance \<notin> set included_peripherals
      then insert_header_loop h header_index rest
             (included_peripherals @ [inst_type instance])
             (list_insert header_index (include_line (meta_name h (inst_type instance)))
                template_contents)
      else insert_header_loop h header_index rest included_peripherals template_contents)"

definition insert_header_files :: "helpers \<Rightarrow> string list \<Rightarrow> peripheral list \<Rightarrow> string list" where
  "insert_header_files h template_contents peripherals_list =
     insert_header_loop h (find_idx h template_contents ''PHEADER'') peripherals_list []
       template_contents"

text \<open>
  \<open>line[::-1].replace(",", "", 1)[::-1]\<close>: the line without its last comma.
\<close>

definition remove_last_comma :: "string \<Rightarrow> string" where
  "remove_last_comma l = rev (remove1 (CHR '','') (rev l))"

definition strip_comma_at :: "int \<Rightarrow> string list \<Rightarrow> error + string list" where
  "strip_comma_at i tc =
     (case list_index i tc of
        None \<Rightarrow> Inl (Exception ''IndexError'')
      | Some j \<Rightarrow> Inr (tc[j := remove_last_comma (tc ! j)]))"

text \<open>
  The two signal loops of \<open>create_systemv\<close> have the same body: insert the connection
  line at \<open>start_index\<close>, and strip the comma of the first line inserted. They share the
  flag \<open>first_reversed_signal\<close>, which the loop returns.
\<close>

fun insert_signals ::
  "int \<Rightarrow> string list \<Rightarrow> bool \<Rightarrow> string list \<Rightarrow> error + (string list \<times> bool)" where
  "insert_signals start_index [] first_reversed_signal tc = Inr (tc, first_reversed_signal)"
| "insert_signals start_index (l # ls) first_reversed_signal tc =
     (let tc1 = list_insert start_index l tc in
      if first_reversed_signal
      then (case strip_comma_at start_index tc1 of
              Inl e \<Rightarrow> Inl e
            | Inr tc2 \<Rightarrow> insert_signals start_index ls False tc2)
      else insert_signals start_index ls first_reversed_signal tc1)"

definition reserved_line :: "helpers \<Rightarrow> string \<Rightarrow> peripheral \<Rightarrow> string \<Rightarrow> string" where
  "reserved_line h top_name instance signal =
     ''      '' @ reserved_signal_connection h signal
                   (upper top_name @ ''_'' @ inst_name instance)
                   (upper (top_list h (inst_type instance)) @ ''_SWREG'')
     @ '','' @ [newline]"

definition pio_line :: "helpers \<Rightarrow> peripheral \<Rightarrow> string \<Rightarrow> string" where
  "pio_line h instance signal =
     ''      .'' @ signal @ ''('' @ peripheral_port_mapping h instance signal @ ''),'' @ [newline]"

fun insert_params :: "int \<Rightarrow> (string \<times> string) list \<Rightarrow> bool \<Rightarrow> string list \<Rightarrow> string list" where
  "insert_params start_index [] first_reversed_signal tc = tc"
| "insert_params start_index ((param, val) # rest) first_reversed_signal tc =
     insert_params start_index rest False
       (list_insert start_index
          (''      .'' @ param @ ''('' @ val @ '')''
           @ (if first_reversed_signal then [] else '','') @ [newline]) tc)"

definition insert_instance :: "helpers \<Rightarrow> string \<Rightarrow> peripheral \<Rightarrow> string list \<Rightarrow> error + string list" where
  "insert_instance h top_name instance tc0 =
     (let start_index = find_idx h tc0 ''endmodule'' - 1;
          tc1 = list_insert start_index (''      );'' @ [newline]) tc0
      in case insert_signals start_index
                (map (reserved_line h top_name instance) (reserved_signals h (inst_type instance)))
                True tc1 of
           Inl e \<Rightarrow> Inl e
         | Inr (tc2, first2) \<Rightarrow>
             (case insert_signals start_index
                     (map (pio_line h instance) (pio_signals h (inst_type instance)))
                     first2 tc2 of
                Inl e \<Rightarrow> Inl e
              | Inr (tc3, first3) \<Rightarrow>
                  (let tc4 = list_insert start_index
                               (''   '' @ inst_name instance @ '' ('' @ [newline]) tc3;
                       tc5 = (if length (inst_params instance) > 0
                              then list_insert start_index (''     #('' @ [newline])
                                     (insert_params start_index (inst_params instance) True
                                        (list_insert start_index (''   )'' @ [newline]) tc4))
                              else tc4);
                       tc6 = list_insert start_index
                               (''   '' @ top_list h (inst_type instance) @ [newline]) tc5;
                       tc7 = list_insert start_index [newline] tc6;
                       tc8 = list_insert start_index
                               (''   // '' @ inst_name instance @ [newline]) tc7;
                       tc9 = list_insert start_index [newline] tc8
                   in Inr tc9)))"

fun insert_instances :: "helpers \<Rightarrow> string \<Rightarrow> peripheral list \<Rightarrow> string list \<Rightarrow> error + string list" where
  "insert_instances h top_name [] tc = Inr tc"
| "insert_instances h top_name (instance # rest) tc =
     (case insert_instance h top_name instance tc of
        Inl e \<Rightarrow> Inl e
      | Inr tc1 \<Rightarrow> insert_instances h top_name rest tc1)"

fun insert_wires :: "int \<Rightarrow> wire list \<Rightarrow> string list \<Rightarrow> string list" where
  "insert_wires start_index [] tc = tc"
| "insert_wires start_index (w # ws) tc =
     insert_wires start_index ws
       (list_insert start_index
          (''    wire ['' @ wire_n_bits w @ ''-1:0] '' @ wire_name w @ [newline]) tc)"

definition insert_internal_wires :: "helpers \<Rightarrow> wire list \<Rightarrow> string list \<Rightarrow> string list" where
  "insert_internal_wires h internal_wires tc =
     (if internal_wires \<noteq> []
      then (let start_index = find_idx h tc '');''
            in list_insert start_index (''    // Module internal wires'' @ [newline])
                 (insert_wires start_index internal_wires tc))
      else tc)"

text \<open>
  \<open>create_systemv\<close>. The arguments \<open>submodule_dirs\<close> is only passed on to the helpers,
  so it is part of \<open>h\<close>; \<open>internal_wires=None\<close> is the empty list, which the code treats
  alike.
\<close>

definition template_path :: "string \<Rightarrow> string \<Rightarrow> string" where
  "template_path setup_dir top_name = setup_dir @ ''/hardware/src/'' @ top_name @ ''.vt''"

definition create_systemv ::
  "helpers \<Rightarrow> string \<Rightarrow> string \<Rightarrow> peripheral list \<Rightarrow> string \<Rightarrow> wire list \<Rightarrow> filesystem
     \<Rightarrow> error + filesystem" where
  "create_systemv h setup_dir top_name peripherals_list out_file internal_wires fs =
     (if \<not> isfile fs (template_path setup_dir top_name) then Inr fs
      else (case fs (template_path setup_dir top_name) of
              None \<Rightarrow> Inl (FileNotFoundError (template_path setup_dir top_name))
            | Some f \<Rightarrow>
                if \<not> is_text f then Inl (UnicodeDecodeError (template_path setup_dir top_name))
                else (let template_contents = readlines (content f);
                          tc1 = insert_header_files h template_contents peripherals_list
                      in case insert_instances h top_name peripherals_list tc1 of
                           Inl e \<Rightarrow> Inl e
                         | Inr tc2 \<Rightarrow>
                             Inr (write_text out_file
                                    (insert_internal_wires h internal_wires tc2) fs))))"


text \<open>
  The distinct peripheral types in first-seen order, as the spec words the header step.
\<close>

fun first_seen :: "'a list \<Rightarrow> 'a list" where
  "first_seen [] = []"
| "first_seen (x # xs) = x # filter (\<lambda>y. y \<noteq> x) (first_seen xs)"

subsection \<open>The inputs of the examples\<close>

definition splice_template :: "string list" where
  "splice_template =
     [''module top('' @ [newline], '');'' @ [newline], ''endmodule'' @ [newline]]"


definition u0 :: peripheral where
  "u0 = \<lparr>inst_type = ''T'', inst_name = ''u0'', inst_params = []\<rparr>"

definition example_helpers :: helpers where
  "example_helpers =
     \<lparr>absent_idx = (\<lambda>lines word. int (length lines)),
      meta_name = (\<lambda>t. t),
      top_list = (\<lambda>t. t),
      reserved_signals = (\<lambda>t. []),
      pio_signals = (\<lambda>t. [''data'']),
      reserved_signal_connection = (\<lambda>signal prefix swreg. ''.'' @ signal @ ''('' @ prefix @ '')''),
      peripheral_port_mapping = (\<lambda>instance signal. ''w'')\<rparr>"


definition example_fs :: filesystem where
  "example_fs =
     (\<lambda>p. None)(''/core/hardware/src/top.vt'' \<mapsto>
        \<lparr>content = concat splice_template, is_text = True, st_mode = 420\<rparr>)"

definition header_template :: "string list" where
  "header_template = [''//PHEADER'' @ [newline], ''module top('' @ [newline]]"

definition two_types :: "peripheral list" where
  "two_types =
     [\<lparr>inst_type = ''A'', inst_name = ''a0'', inst_params = []\<rparr>,
      \<lparr>inst_type = ''B'', inst_name = ''b0'', inst_params = []\<rparr>,
      \<lparr>inst_type = ''A'', inst_name = ''a1'', inst_params = []\<rparr>]"

section \<open>iob_module.py: copy_with_rename\<close>

text \<open>
  The two replacements that \<open>copy_func\<close> applies to the destination path and to every
  line: the old core name by the new one, then the upper-cased old name by the
  upper-cased new one.
\<close>

definition rename_text :: "string \<Rightarrow> string \<Rightarrow> string \<Rightarrow> string" where
  "rename_text old_core_name new_core_name s =
     replace (upper old_core_name) (upper new_core_name)
       (replace old_core_name new_core_name s)"

text \<open>
  \<open>shutil.copyfile(src, dst)\<close> copies the content and not the permission bits; it refuses
  to copy a file onto itself. \<open>os.chmod(dst, mode)\<close> sets the permission bits.
\<close>

definition copyfile :: "string \<Rightarrow> string \<Rightarrow> filesystem \<Rightarrow> error + filesystem" where
  "copyfile src dst fs =
     (if src = dst then Inl (SameFileError src)
      else (case fs src of
              None \<Rightarrow> Inl (FileNotFoundError src)
            | Some f \<Rightarrow>
                Inr (fs(dst \<mapsto> \<lparr>content = content f, is_text = is_text f,
                          st_mode = (case fs dst of None \<Rightarrow> create_mode
                                     | Some g \<Rightarrow> st_mode g)\<rparr>))))"

definition chmod :: "string \<Rightarrow> nat \<Rightarrow> filesystem \<Rightarrow> error + filesystem" where
  "chmod dst mode fs =
     (case fs dst of
        None \<Rightarrow> Inl (FileNotFoundError dst)
      | Some f \<Rightarrow> Inr (fs(dst \<mapsto> f\<lparr>st_mode := mode\<rparr>)))"

text \<open>
  \<open>copy_with_rename(old_core_name, new_core_name)\<close> returns \<open>copy_func\<close>; the model is
  \<open>copy_func(src, dst)\<close>. With no file at \<open>src\<close>, \<open>os.stat\<close> raises inside the \<open>try\<close> and
  \<open>shutil.copyfile\<close> raises again in the handler. A file that does not read as text
  raises in \<open>readlines\<close>, and the handler copies it as it is.
\<close>

definition copy_with_rename ::
  "string \<Rightarrow> string \<Rightarrow> string \<Rightarrow> string \<Rightarrow> filesystem \<Rightarrow> error + filesystem" where
  "copy_with_rename old_core_name new_core_name src dst fs =
     (let dst' = path_join (dirname dst)
                   (basename (rename_text old_core_name new_core_name dst))
      in case fs src of
           None \<Rightarrow> Inl (FileNotFoundError src)
         | Some f \<Rightarrow>
             (let file_perms = st_mode f
              in case (if is_text f
                       then Inr (write_text dst'
                                   (map (rename_text old_core_name new_core_name)
                                      (readlines (content f))) fs)
                       else copyfile src dst' fs) of
                   Inl e \<Rightarrow> Inl e
                 | Inr fs1 \<Rightarrow> chmod dst' file_perms fs1))"

text \<open>
  The sources of \<open>iob_soc\<close>, copied for the derived core \<open>iob_soc_sut\<close>: a Verilog file
  with two lines, the first ended by a carriage return and a line feed, the second by a
  carriage return, and a file that does not read as text.
\<close>

definition soc_source :: string where
  "soc_source =
     ''module iob_soc (iob_soc_x);'' @ [carriage_return, newline]
     @ ''// IOB_SOC top'' @ [carriage_return]"

definition soc_fs :: filesystem where
  "soc_fs =
     ((\<lambda>p. None)
        (''/soc/hardware/src/iob_soc.v'' \<mapsto>
           \<lparr>content = soc_source, is_text = True, st_mode = 493\<rparr>))
        (''/soc/hardware/src/boot.bin'' \<mapsto>
           \<lparr>content = ''iob_soc'', is_text = False, st_mode = 292\<rparr>)"

section \<open>iob_module.py: the declarative lists\<close>

text \<open>
  A Python dictionary with string keys is an association list in insertion order; its
  keys are distinct. \<open>d[k]\<close> is \<open>map_of d k\<close>, a KeyError when that is \<open>None\<close>.
  \<open>d.update(other)\<close> stores every pair of \<open>other\<close>, in order: a key of \<open>d\<close> keeps its
  place and takes the new value, a new key goes to the end.
\<close>

definition dict_update :: "(string \<times> 'v) list \<Rightarrow> (string \<times> 'v) list \<Rightarrow> (string \<times> 'v) list" where
  "dict_update d other = fold (\<lambda>(k, v). AList.update k v) other d"

text \<open>
  The inner loop of \<open>update_dict_list\<close> for one new item: the first entry with the item's
  name is updated and the loop breaks; with no such entry (the \<open>else\<close> of the \<open>for\<close>) the
  item is appended. Both names are read at every comparison, the entry's first.
\<close>

fun update_dict_list_item ::
  "(string \<times> 'v) list list \<Rightarrow> (string \<times> 'v) list \<Rightarrow> error + (string \<times> 'v) list list" where
  "update_dict_list_item [] item = Inr [item]"
| "update_dict_list_item (d # ds) item =
     (case map_of d ''name'' of
        None \<Rightarrow> Inl (KeyError ''name'')
      | Some a \<Rightarrow>
          (case map_of item ''name'' of
             None \<Rightarrow> Inl (KeyError ''name'')
           | Some b \<Rightarrow>
               if a = b then Inr (dict_update d item # ds)
               else (case update_dict_list_item ds item of
                       Inl e \<Rightarrow> Inl e
                     | Inr ds' \<Rightarrow> Inr (d # ds'))))"

text \<open>
  \<open>update_dict_list\<close> mutates \<open>dict_list\<close>: the model returns the list as it is when
  the function returns or raises, and the error if it raised.
\<close>

fun update_dict_list ::
  "(string \<times> 'v) list list \<Rightarrow> (string \<times> 'v) list list
     \<Rightarrow> (string \<times> 'v) list list \<times> error option" where
  "update_dict_list dict_list [] = (dict_list, None)"
| "update_dict_list dict_list (item # new_items) =
     (case update_dict_list_item dict_list item of
        Inl e \<Rightarrow> (dict_list, Some e)
      | Inr dict_list' \<Rightarrow> update_dict_list dict_list' new_items)"

text \<open>
  The words of the merge law. \<open>name_of\<close> is the name of an entry; \<open>entry_fields l n\<close> are
  the fields of the first entry of \<open>l\<close> named \<open>n\<close> (no field when there is none);
  \<open>merged_fields dict_list new_items n\<close> starts from the existing entry named \<open>n\<close> and
  lets every new item named \<open>n\<close>, in input order, override the keys it has.
\<close>

definition name_of :: "(string \<times> 'v) list \<Rightarrow> 'v option" where
  "name_of d = map_of d ''name''"

definition entry_fields :: "(string \<times> 'v) list list \<Rightarrow> 'v option \<Rightarrow> (string \<Rightarrow> 'v option)" where
  "entry_fields l n =
     (case find (\<lambda>d. name_of d = n) l of None \<Rightarrow> Map.empty | Some d \<Rightarrow> map_of d)"

definition merged_fields ::
  "(string \<times> 'v) list list \<Rightarrow> (string \<times> 'v) list list \<Rightarrow> 'v option \<Rightarrow> (string \<Rightarrow> 'v option)" where
  "merged_fields dict_list new_items n =
     fold (\<lambda>item m. m ++ map_of item) (filter (\<lambda>item. name_of item = n) new_items)
       (entry_fields dict_list n)"

definition confs_a :: "(string \<times> string) list list" where
  "confs_a =
     [[(''name'', ''DATA_W''), (''val'', ''32''), (''descr'', ''Data width'')],
      [(''name'', ''ADDR_W''), (''val'', ''16'')]]"

definition confs_b :: "(string \<times> string) list list" where
  "confs_b =
     [[(''name'', ''FIFO_W''), (''val'', ''4'')],
      [(''name'', ''DATA_W''), (''val'', ''64'')],
      [(''name'', ''FIFO_W''), (''max'', ''8'')]]"

definition confs_twice :: "(string \<times> string) list list" where
  "confs_twice = [[(''name'', ''DATA_W''), (''val'', ''32'')], [(''name'', ''DATA_W''), (''val'', ''64'')]]"

section \<open>iob_module.py: classes, state and effects\<close>

text \<open>
  The values of the declarative lists: strings, integers, booleans, \<open>None\<close>, lists and
  dictionaries. \<open>confs\<close>, \<open>regs\<close>, \<open>ios\<close> and \<open>block_groups\<close> are lists of dictionaries.
\<close>

datatype pyval =
    PStr string
  | PInt int
  | PBool bool
  | PNone
  | PList "pyval list"
  | PDict "(string \<times> pyval) list"

type_synonym pydict = "(string \<times> pyval) list"

text \<open>
  An entry of \<open>submodule_list\<close> is a submodule, or a tuple of a submodule and its setup
  options. A submodule is a class derived from \<open>iob_module\<close> (named by its identifier), a
  dictionary that asks for a generated interface, or something else: another class, or
  an object that is no class. The dictionaries of an entry are objects that the setup
  mutates, so an entry holds their addresses in the store \<open>heap\<close> of the state; their
  values are strings.
\<close>

type_synonym cid = string

datatype target =
    ClassRef cid
  | InterfaceDict nat
  | OtherClass string
  | OtherObject string

datatype submodule =
    Plain target
  | Tuple target nat

text \<open>
  The attributes of a class derived from \<open>iob_module\<close>, as attribute lookup on the class
  finds them. Every class has its own attributes (no class of the model reads the
  \<open>_setup_purpose\<close> list or the initialised lists of a base class that was itself set up).
  The lists are \<open>None\<close> until \<open>init_attributes\<close> runs, which the code only tests for
  emptiness: \<open>None\<close> is the empty list here. \<open>_setup_purpose\<close> is compared with \<open>None\<close>, so
  it is optional.

  A class overrides \<open>_create_submodules_list\<close>, \<open>_setup_confs\<close>, \<open>_setup_ios\<close>, \<open>_setup_regs\<close>
  and \<open>_setup_block_groups\<close> to pass its own list to the method of \<open>iob_module\<close>: these
  lists are \<open>own_submodules\<close>, \<open>own_confs\<close>, \<open>own_ios\<close>, \<open>own_regs\<close> and
  \<open>own_block_groups\<close>. The other methods are those of \<open>iob_module\<close>. \<open>mro\<close> is
  \<open>cls.__mro__\<close> from the class up to \<open>iob_module\<close>.
\<close>

record iob_class =
  name :: string
  version :: string
  previous_version :: "string option"
  flows :: string
  setup_dir :: string
  build_dir :: string
  confs :: "pydict list"
  regs :: "pydict list"
  ios :: "pydict list"
  block_groups :: "pydict list"
  wire_list :: "pydict list"
  is_top_module :: bool
  initialized_attributes :: bool
  submodule_list :: "submodule list"
  setup_purpose :: "string list option"
  own_submodules :: "submodule list"
  own_confs :: "pydict list"
  own_ios :: "pydict list"
  own_regs :: "pydict list"
  own_block_groups :: "pydict list"
  mro :: "cid list"

text \<open>
  What the setup does outside the classes is a call of a function that is not among the
  sources (the renderers of \<open>mkregs\<close>, \<open>mk_configuration\<close>, \<open>ios\<close> and \<open>blocks\<close>,
  \<open>build_srcs.flows_setup\<close>, \<open>verilog_tools\<close>) or of the operating system (\<open>os.makedirs\<close>,
  \<open>shutil.copyfile\<close>, \<open>shutil.copytree\<close>): every file of the build directory is written
  by such a call. The state records the calls in order, with their arguments.
\<close>

datatype event = Call string "string list"

record state =
  classes :: "cid \<Rightarrow> iob_class"
  heap :: "nat \<Rightarrow> (string \<times> string) list"
  iob_module_build_dir :: string
  events :: "event list"

text \<open>
  What the setup reads and never changes: \<open>build_srcs.LIB_DIR\<close>,
  \<open>build_srcs.version_str_to_digits\<close>, and \<open>os.path.isdir\<close> and \<open>os.path.isfile\<close> on the
  setup directories.
\<close>

record env =
  lib_dir :: string
  version_str_to_digits :: "string \<Rightarrow> string"
  src_isdir :: "string \<Rightarrow> bool"
  src_isfile :: "string \<Rightarrow> bool"

text \<open>
  A method returns, or raises with the state as the exception finds it.
\<close>

datatype result =
    Done state
  | Raised error state

definition state_of :: "result \<Rightarrow> state" where
  "state_of r = (case r of Done s \<Rightarrow> s | Raised e s \<Rightarrow> s)"

definition and_then :: "result \<Rightarrow> (state \<Rightarrow> result) \<Rightarrow> result" where
  "and_then r f = (case r of Done s \<Rightarrow> f s | Raised e s \<Rightarrow> Raised e s)"

text \<open>
  The recursive methods take fuel: \<open>None\<close> is a run that needs more calls of \<open>__setup\<close>
  than the fuel allows.
\<close>

definition and_then_fuel :: "result option \<Rightarrow> (state \<Rightarrow> result option) \<Rightarrow> result option" where
  "and_then_fuel r f =
     (case r of
        None \<Rightarrow> None
      | Some (Done s) \<Rightarrow> f s
      | Some (Raised e s) \<Rightarrow> Some (Raised e s))"

definition update_class :: "cid \<Rightarrow> (iob_class \<Rightarrow> iob_class) \<Rightarrow> state \<Rightarrow> state" where
  "update_class c f st = st\<lparr>classes := (classes st)(c := f (classes st c))\<rparr>"

definition emit :: "event \<Rightarrow> state \<Rightarrow> state" where
  "emit e st = st\<lparr>events := events st @ [e]\<rparr>"

subsection \<open>Purposes\<close>

definition PURPOSE_DIRS :: "(string \<times> string) list" where
  "PURPOSE_DIRS =
     [(''hardware'', ''hardware/src''),
      (''simulation'', ''hardware/simulation/src''),
      (''fpga'', ''hardware/fpga/src'')]"

definition get_setup_purpose :: "cid \<Rightarrow> state \<Rightarrow> error + string" where
  "get_setup_purpose c st =
     (case setup_purpose (classes st c) of
        None \<Rightarrow> Inl (TypeError ''object of type NoneType has no len()'')
      | Some ps \<Rightarrow> if length ps < 1 then Inl ModuleNotSetup else Inr (last ps))"

definition get_purpose_dir :: "string \<Rightarrow> error + string" where
  "get_purpose_dir purpose =
     (case map_of PURPOSE_DIRS purpose of
        None \<Rightarrow> Inl (AssertionError (''Unknown purpose '' @ purpose))
      | Some d \<Rightarrow> Inr d)"

subsection \<open>Attribute initialisation\<close>

text \<open>
  \<open>init_attributes\<close>. The three \<open>_setup_*\<close> hooks merge the class's own lists into the
  fresh lists with \<open>update_dict_list\<close>, which raises a KeyError on an entry without a
  name and leaves the list as far as it got.
\<close>

definition set_build_dir :: "cid \<Rightarrow> state \<Rightarrow> state" where
  "set_build_dir c st =
     (let cls = classes st c;
          st1 = (if is_top_module cls
                 then st\<lparr>iob_module_build_dir :=
                           (if build_dir cls = [] then ''../'' @ name cls @ ''_'' @ version cls
                            else build_dir cls)\<rparr>
                 else st)
      in update_class c (\<lambda>k. k\<lparr>build_dir := iob_module_build_dir st1\<rparr>) st1)"

definition setup_confs :: "cid \<Rightarrow> state \<Rightarrow> result" where
  "setup_confs c st =
     (case update_dict_list (confs (classes st c)) (own_confs (classes st c)) of
        (l, None) \<Rightarrow> Done (update_class c (\<lambda>k. k\<lparr>confs := l\<rparr>) st)
      | (l, Some e) \<Rightarrow> Raised e (update_class c (\<lambda>k. k\<lparr>confs := l\<rparr>) st))"

definition setup_ios :: "cid \<Rightarrow> state \<Rightarrow> result" where
  "setup_ios c st =
     (case update_dict_list (ios (classes st c)) (own_ios (classes st c)) of
        (l, None) \<Rightarrow> Done (update_class c (\<lambda>k. k\<lparr>ios := l\<rparr>) st)
      | (l, Some e) \<Rightarrow> Raised e (update_class c (\<lambda>k. k\<lparr>ios := l\<rparr>) st))"

definition setup_regs :: "cid \<Rightarrow> state \<Rightarrow> result" where
  "setup_regs c st =
     (case update_dict_list (regs (classes st c)) (own_regs (classes st c)) of
        (l, None) \<Rightarrow> Done (update_class c (\<lambda>k. k\<lparr>regs := l\<rparr>) st)
      | (l, Some e) \<Rightarrow> Raised e (update_class c (\<lambda>k. k\<lparr>regs := l\<rparr>) st))"

definition setup_block_groups :: "cid \<Rightarrow> state \<Rightarrow> result" where
  "setup_block_groups c st =
     (case update_dict_list (block_groups (classes st c)) (own_block_groups (classes st c)) of
        (l, None) \<Rightarrow> Done (update_class c (\<lambda>k. k\<lparr>block_groups := l\<rparr>) st)
      | (l, Some e) \<Rightarrow> Raised e (update_class c (\<lambda>k. k\<lparr>block_groups := l\<rparr>) st))"

definition create_submodules_list :: "cid \<Rightarrow> state \<Rightarrow> state" where
  "create_submodules_list c st =
     update_class c (\<lambda>k. k\<lparr>submodule_list := submodule_list k @ own_submodules k\<rparr>) st"

definition init_attributes :: "cid \<Rightarrow> state \<Rightarrow> result" where
  "init_attributes c st =
     (if initialized_attributes (classes st c) then Done st
      else (let st1 = update_class c (\<lambda>k. k\<lparr>initialized_attributes := True\<rparr>) st;
                st2 = set_build_dir c st1;
                st3 = update_class c
                        (\<lambda>k. if previous_version k = None \<or> previous_version k = Some []
                              then k\<lparr>previous_version := Some (version k)\<rparr> else k) st2;
                st4 = update_class c
                        (\<lambda>k. k\<lparr>confs := [], regs := [], ios := [], block_groups := [],
                               submodule_list := [], wire_list := []\<rparr>) st3;
                st5 = create_submodules_list c st4
            in and_then (setup_confs c st5)
                 (\<lambda>st6. and_then (setup_ios c st6) (setup_regs c))))"

subsection \<open>The build directory and the copied sources\<close>

definition create_build_dir :: "env \<Rightarrow> cid \<Rightarrow> state \<Rightarrow> result" where
  "create_build_dir E c st =
     (let cls = classes st c in
      if \<not> is_top_module cls
      then Raised (AssertionError (''Module '' @ name cls @ '' is not a top module!'')) st
      else (let st1 = emit (Call ''os.makedirs'' [build_dir cls]) st;
                st2 = emit (Call ''config_build_mk'' [c]) st1;
                st3 = emit (Call ''os.makedirs'' [build_dir cls @ ''/hardware/src'']) st2;
                st4 = (if contains ''sim'' (flows cls)
                       then emit (Call ''os.makedirs''
                                    [build_dir cls @ ''/hardware/simulation/src'']) st3
                       else st3);
                st5 = (if contains ''fpga'' (flows cls)
                       then emit (Call ''os.makedirs'' [build_dir cls @ ''/hardware/fpga/src'']) st4
                       else st4)
            in Done (emit (Call ''shutil.copyfile''
                             [lib_dir E @ ''/build.mk'', build_dir cls @ ''/Makefile'']) st5)))"

text \<open>
  \<open>_copy_srcs\<close> with its default arguments. The inner loop copies the directories of one
  class of the chain; the tree is copied by \<open>shutil.copytree\<close> with
  \<open>copy_with_rename(module_class.name, cls.name)\<close> as its copy function, recorded with the
  two names.
\<close>

fun copy_dirs :: "env \<Rightarrow> cid \<Rightarrow> cid \<Rightarrow> string list \<Rightarrow> state \<Rightarrow> result" where
  "copy_dirs E c module_class [] st = Done st"
| "copy_dirs E c module_class (directory # rest) st =
     (if \<not> src_isdir E (path_join (setup_dir (classes st module_class)) directory)
      then copy_dirs E c module_class rest st
      else (case (if directory = ''hardware/src''
                  then (case get_setup_purpose c st of
                          Inl e \<Rightarrow> Inl e
                        | Inr p \<Rightarrow> get_purpose_dir p)
                  else Inr directory) of
              Inl e \<Rightarrow> Raised e st
            | Inr dst_directory \<Rightarrow>
                copy_dirs E c module_class rest
                  (emit (Call ''shutil.copytree''
                           [path_join (setup_dir (classes st module_class)) directory,
                            path_join (build_dir (classes st c)) dst_directory,
                            name (classes st module_class), name (classes st c)]) st)))"

definition dir_list :: "bool \<Rightarrow> string list" where
  "dir_list is_top =
     [''hardware/src'', ''software'']
     @ (if is_top then [''hardware/simulation'', ''hardware/fpga'', ''hardware/syn'',
                        ''hardware/lint''] else [])"

fun copy_classes :: "env \<Rightarrow> cid \<Rightarrow> cid list \<Rightarrow> string list \<Rightarrow> state \<Rightarrow> result" where
  "copy_classes E c [] previously_setup_dirs st = Done st"
| "copy_classes E c (module_class # rest) previously_setup_dirs st =
     (if setup_dir (classes st module_class) = [] then
        copy_classes E c rest previously_setup_dirs st
      else if setup_dir (classes st module_class) \<in> set previously_setup_dirs then
        copy_classes E c rest previously_setup_dirs st
      else
        and_then (copy_dirs E c module_class (dir_list (is_top_module (classes st c))) st)
          (\<lambda>st1.
             copy_classes E c rest
               (previously_setup_dirs @ [setup_dir (classes st module_class)])
               (if is_top_module (classes st1 c) \<and> contains ''doc'' (flows (classes st1 c))
                then emit (Call ''shutil.copytree''
                             [path_join (setup_dir (classes st1 module_class)) ''document'',
                              path_join (build_dir (classes st1 c)) ''document'']) st1
                else st1)))"

definition copy_srcs :: "env \<Rightarrow> cid \<Rightarrow> state \<Rightarrow> result" where
  "copy_srcs E c st = copy_classes E c (rev (mro (classes st c))) [] st"

subsection \<open>Generated interfaces\<close>

text \<open>
  \<open>__generate(vs_name, purpose)\<close> as the source has it: the destination directory is
  computed, which asserts that the purpose is known, and the three prefixes are set in
  the dictionary when they are missing. It writes no file.
\<close>

definition set_default :: "string \<Rightarrow> string \<Rightarrow> (string \<times> string) list \<Rightarrow> (string \<times> string) list" where
  "set_default k v d = (if k \<in> fst ` set d then d else AList.update k v d)"

definition generate :: "(string \<times> string) list \<Rightarrow> string \<Rightarrow> error + (string \<times> string) list" where
  "generate vs_name purpose =
     (case get_purpose_dir purpose of
        Inl e \<Rightarrow> Inl e
      | Inr dest_dir \<Rightarrow>
          Inr (set_default ''wire_prefix'' []
                (set_default ''port_prefix'' []
                  (set_default ''file_prefix'' [] vs_name))))"

text \<open>\<open>cls.__generate(d, purpose=...)\<close> on a dictionary written in place, which is dropped.\<close>

definition generate_literal :: "(string \<times> string) list \<Rightarrow> string \<Rightarrow> state \<Rightarrow> result" where
  "generate_literal vs_name purpose st =
     (case generate vs_name purpose of Inl e \<Rightarrow> Raised e st | Inr d \<Rightarrow> Done st)"

subsection \<open>_auto_add_settings, without the setup of iob_ctls\<close>

fun has_version_macro :: "pydict list \<Rightarrow> error + bool" where
  "has_version_macro [] = Inr False"
| "has_version_macro (macro # rest) =
     (case map_of macro ''name'' of
        None \<Rightarrow> Inl (KeyError ''name'')
      | Some n \<Rightarrow> if n = PStr ''VERSION'' then Inr True else has_version_macro rest)"

definition version_macro :: "env \<Rightarrow> string \<Rightarrow> pydict" where
  "version_macro E v =
     [(''name'', PStr ''VERSION''),
      (''type'', PStr ''M''),
      (''val'', PStr (''16'' @ [squote] @ ''h'' @ version_str_to_digits E v)),
      (''min'', PStr ''NA''),
      (''max'', PStr ''NA''),
      (''descr'', PStr ''Product version. This 16-bit macro uses nibbles to represent decimal numbers using their binary values. The two most significant nibbles represent the integral part of the version, and the two least significant nibbles represent the decimal part. For example V12.34 is represented by 0x1234.'')]"

definition auto_add_version_macro :: "env \<Rightarrow> cid \<Rightarrow> state \<Rightarrow> result" where
  "auto_add_version_macro E c st =
     (if confs (classes st c) \<noteq> []
      then (case has_version_macro (confs (classes st c)) of
              Inl e \<Rightarrow> Raised e st
            | Inr True \<Rightarrow> Done st
            | Inr False \<Rightarrow>
                Done (update_class c
                        (\<lambda>k. k\<lparr>confs := confs k @ [version_macro E (version k)]\<rparr>) st))
      else Done st)"

definition auto_add_interfaces :: "cid \<Rightarrow> state \<Rightarrow> result" where
  "auto_add_interfaces c st =
     (case get_setup_purpose c st of
        Inl e \<Rightarrow> Raised e st
      | Inr p \<Rightarrow>
          and_then (generate_literal [(''interface'', ''iob_s_port'')] p st)
            (\<lambda>st1. case get_setup_purpose c st1 of
                      Inl e \<Rightarrow> Raised e st1
                    | Inr p1 \<Rightarrow> generate_literal [(''interface'', ''iob_s_s_portmap'')] p1 st1))"

subsection \<open>_generate_files\<close>

fun find_general :: "pydict list \<Rightarrow> error + nat option" where
  "find_general [] = Inr None"
| "find_general (i # rest) =
     (case map_of i ''name'' of
        None \<Rightarrow> Inl (KeyError ''name'')
      | Some n \<Rightarrow>
          if n = PStr ''general'' then Inr (Some 0)
          else (case find_general rest of
                  Inl e \<Rightarrow> Inl e
                | Inr None \<Rightarrow> Inr None
                | Inr (Some j) \<Rightarrow> Inr (Some (Suc j))))"

definition general_regs_table :: pydict where
  "general_regs_table =
     [(''name'', PStr ''general''), (''descr'', PStr ''General Registers.''), (''regs'', PList [])]"

definition reserved_message :: "string \<Rightarrow> string" where
  "reserved_message cls_name =
     cls_name @ '': Register '' @ [squote] @ ''VERSION'' @ [squote] @ '' is reserved. Please remove it.''"

text \<open>
  The loop over the registers of the general table: an error when one is named
  \<open>VERSION\<close>; \<open>Inr ()\<close> is the \<open>else\<close> of the \<open>for\<close>.
\<close>

fun check_version_reg :: "string \<Rightarrow> pyval list \<Rightarrow> error + unit" where
  "check_version_reg cls_name [] = Inr ()"
| "check_version_reg cls_name (reg # rest) =
     (case reg of
        PDict d \<Rightarrow>
          (case map_of d ''name'' of
             None \<Rightarrow> Inl (KeyError ''name'')
           | Some n \<Rightarrow>
               if n = PStr ''VERSION'' then Inl (Exception (reserved_message cls_name))
               else check_version_reg cls_name rest)
      | _ \<Rightarrow> Inl (TypeError ''register is not a dictionary''))"

definition version_reg :: "env \<Rightarrow> string \<Rightarrow> pydict" where
  "version_reg E v =
     [(''name'', PStr ''VERSION''),
      (''type'', PStr ''R''),
      (''n_bits'', PInt 16),
      (''rst_val'', PStr (version_str_to_digits E v)),
      (''addr'', PInt (- 1)),
      (''log2n_items'', PInt 0),
      (''autologic'', PBool True),
      (''descr'', PStr ''Product version.  This 16-bit register uses nibbles to represent decimal numbers using their binary values. The two most significant nibbles represent the integral part of the version, and the two least significant nibbles represent the decimal part. For example V12.34 is represented by 0x1234.'')]"

text \<open>
  The \<open>VERSION\<close> step of \<open>_build_regs_table\<close> on the general table at index \<open>i\<close> of
  \<open>cls.regs\<close>: the table's register list gets the \<open>VERSION\<close> register in place.
\<close>

definition add_version_reg :: "env \<Rightarrow> cid \<Rightarrow> nat \<Rightarrow> state \<Rightarrow> result" where
  "add_version_reg E c i st =
     (let cls = classes st c; table = regs cls ! i in
      case map_of table ''regs'' of
        None \<Rightarrow> Raised (KeyError ''regs'') st
      | Some (PList rs) \<Rightarrow>
          (case check_version_reg (name cls) rs of
             Inl e \<Rightarrow> Raised e st
           | Inr u \<Rightarrow>
               Done (update_class c
                       (\<lambda>k. k\<lparr>regs := (regs k)
                                 [i := AList.update ''regs''
                                         (PList (rs @ [PDict (version_reg E (version k))]))
                                         table]\<rparr>) st))
      | Some other \<Rightarrow> Raised (TypeError ''regs is not a list'') st)"

definition build_regs_table :: "env \<Rightarrow> cid \<Rightarrow> state \<Rightarrow> result" where
  "build_regs_table E c st =
     (if regs (classes st c) = [] then Done st
      else (case find_general (regs (classes st c)) of
              Inl e \<Rightarrow> Raised e st
            | Inr found \<Rightarrow>
                (let i = (case found of None \<Rightarrow> length (regs (classes st c)) | Some j \<Rightarrow> j);
                     st1 = (case found of
                              None \<Rightarrow> update_class c
                                        (\<lambda>k. k\<lparr>regs := regs k @ [general_regs_table]\<rparr>) st
                            | Some j \<Rightarrow> st)
                 in case setup_purpose (classes st1 c) of
                      None \<Rightarrow> Raised (TypeError ''object of type NoneType has no len()'') st1
                    | Some ps \<Rightarrow>
                        and_then (if length ps < 2 then add_version_reg E c i st1 else Done st1)
                          (\<lambda>st2. Done (emit (Call ''mkregs.get_reg_table'' [c]) st2)))))"

definition generate_hw :: "cid \<Rightarrow> state \<Rightarrow> state" where
  "generate_hw c st =
     (let cls = classes st c;
          st1 = (if regs cls \<noteq> []
                 then emit (Call ''mkregs.write_hwcode'' [build_dir cls @ ''/hardware/src'', name cls])
                        (emit (Call ''mkregs.write_lparam_header''
                                 [build_dir cls @ ''/hardware/simulation/src'', name cls])
                           (emit (Call ''mkregs.write_hwheader''
                                    [build_dir cls @ ''/hardware/src'', name cls]) st))
                 else st);
          st2 = (if confs cls \<noteq> []
                 then emit (Call ''mk_conf.conf_vh'' [name cls, build_dir cls @ ''/hardware/src''])
                        (emit (Call ''mk_conf.params_vh''
                                 [name cls, build_dir cls @ ''/hardware/src'']) st1)
                 else st1)
      in if ios cls \<noteq> []
         then emit (Call ''ios.generate_ports'' [name cls, build_dir cls @ ''/hardware/src'']) st2
         else st2)"

definition generate_sw :: "cid \<Rightarrow> state \<Rightarrow> state" where
  "generate_sw c st =
     (let cls = classes st c in
      if contains ''emb'' (flows cls)
      then (let st1 = emit (Call ''os.makedirs'' [build_dir cls @ ''/software/src'']) st;
                st2 = (if regs cls \<noteq> []
                       then emit (Call ''mkregs.write_swheader''
                                    [build_dir cls @ ''/software/src'', name cls])
                              (emit (Call ''mkregs.write_swcode''
                                       [build_dir cls @ ''/software/src'', name cls])
                                 (emit (Call ''mkregs.write_swheader''
                                          [build_dir cls @ ''/software/src'', name cls]) st1))
                       else st1)
            in emit (Call ''mk_conf.conf_h'' [name cls, build_dir cls @ ''/software/src'']) st2)
      else st)"

definition generate_doc :: "cid \<Rightarrow> state \<Rightarrow> state" where
  "generate_doc c st =
     (let cls = classes st c in
      if is_top_module cls \<and> contains ''doc'' (flows cls)
      then (let st1 = emit (Call ''ios.generate_ios_tex'' [build_dir cls @ ''/document/tsrc''])
                        (emit (Call ''mk_conf.generate_confs_tex''
                                 [build_dir cls @ ''/document/tsrc'']) st);
                st2 = (if regs cls \<noteq> []
                       then emit (Call ''mkregs.generate_regs_tex''
                                    [build_dir cls @ ''/document/tsrc'']) st1
                       else st1)
            in emit (Call ''blocks.generate_blocks_tex'' [build_dir cls @ ''/document/tsrc'']) st2)
      else st)"

definition generate_files :: "env \<Rightarrow> cid \<Rightarrow> state \<Rightarrow> result" where
  "generate_files E c st =
     and_then (build_regs_table E c st)
       (\<lambda>st1. Done (generate_doc c (generate_sw c (generate_hw c st1))))"

subsection \<open>The rest of _post_setup\<close>

definition flows_setup_files :: "string \<Rightarrow> (string \<times> string) list" where
  "flows_setup_files dir =
     [(''sim'', dir @ ''/hardware/simulation/sim_setup.py''),
      (''fpga'', dir @ ''/hardware/fpga/fpga_setup.py''),
      (''emb'', dir @ ''/software/sw_setup.py''),
      (''doc'', dir @ ''/document/doc_setup.py'')]"

fun run_setup_files_loop :: "env \<Rightarrow> cid \<Rightarrow> (string \<times> string) list \<Rightarrow> state \<Rightarrow> state" where
  "run_setup_files_loop E c [] st = st"
| "run_setup_files_loop E c ((flow, filepath) # rest) st =
     (if \<not> contains flow (flows (classes st c)) then run_setup_files_loop E c rest st
      else if \<not> src_isfile E filepath then run_setup_files_loop E c rest st
      else run_setup_files_loop E c rest (emit (Call ''exec_module'' [filepath, c]) st))"

definition run_setup_files :: "env \<Rightarrow> cid \<Rightarrow> state \<Rightarrow> state" where
  "run_setup_files E c st =
     run_setup_files_loop E c (flows_setup_files (setup_dir (classes st c))) st"

definition replace_snippet_includes :: "cid \<Rightarrow> state \<Rightarrow> state" where
  "replace_snippet_includes c st =
     emit (Call ''verilog_tools.replace_includes''
             [setup_dir (classes st c), build_dir (classes st c)]) st"

fun remove_duplicate_loop :: "cid \<Rightarrow> string list \<Rightarrow> state \<Rightarrow> state" where
  "remove_duplicate_loop c [] st = st"
| "remove_duplicate_loop c (subfolder # rest) st =
     (if subfolder = ''hardware/src'' then remove_duplicate_loop c rest st
      else remove_duplicate_loop c rest
             (emit (Call ''remove common sources''
                      [path_join (build_dir (classes st c)) ''hardware/src'',
                       path_join (build_dir (classes st c)) subfolder]) st))"

definition remove_duplicate_sources :: "cid \<Rightarrow> state \<Rightarrow> state" where
  "remove_duplicate_sources c st = remove_duplicate_loop c (map snd PURPOSE_DIRS) st"

definition post_setup_tail :: "env \<Rightarrow> cid \<Rightarrow> state \<Rightarrow> result" where
  "post_setup_tail E c st =
     and_then (generate_files E c st)
       (\<lambda>st1. let st2 = run_setup_files E c st1 in
               Done (if is_top_module (classes st2 c)
                     then remove_duplicate_sources c (replace_snippet_includes c st2)
                     else st2))"

subsection \<open>The entries of submodule_list\<close>

definition entry_target :: "submodule \<Rightarrow> target" where
  "entry_target e = (case e of Plain t \<Rightarrow> t | Tuple t a \<Rightarrow> t)"

text \<open>
  The setup options of an entry: a fresh empty dictionary for a plain entry, the
  dictionary of the tuple otherwise. Storing into the fresh dictionary is lost with it;
  storing into the dictionary of a tuple changes the object that the list holds.
\<close>

definition entry_options :: "submodule \<Rightarrow> state \<Rightarrow> (string \<times> string) list" where
  "entry_options e st = (case e of Plain t \<Rightarrow> [] | Tuple t a \<Rightarrow> heap st a)"

definition store_options :: "submodule \<Rightarrow> (string \<times> string) list \<Rightarrow> state \<Rightarrow> state" where
  "store_options e opts st =
     (case e of Plain t \<Rightarrow> st | Tuple t a \<Rightarrow> st\<lparr>heap := (heap st)(a := opts)\<rparr>)"

datatype request =
    Skip
  | Proceed "(string \<times> string) list"

text \<open>
  The head of the loop body of \<open>_setup_submodules\<close>, up to the choice between
  \<open>__generate\<close> and \<open>__setup\<close>: the default purpose, the \<open>continue\<close> of a class that is not
  the top module, and the purpose of the current class in place of \<open>hardware\<close>.
\<close>

definition default_purpose :: "(string \<times> string) list \<Rightarrow> (string \<times> string) list" where
  "default_purpose setup_options =
     (if ''purpose'' \<in> fst ` set setup_options then setup_options
      else AList.update ''purpose'' ''hardware'' setup_options)"

definition resolve_options :: "cid \<Rightarrow> submodule \<Rightarrow> state \<Rightarrow> (error + request) \<times> state" where
  "resolve_options c e st =
     (let opts1 = default_purpose (entry_options e st);
          st1 = store_options e opts1 st
      in if \<not> is_top_module (classes st1 c) \<and> map_of opts1 ''purpose'' \<noteq> Some ''hardware''
         then (Inr Skip, st1)
         else if map_of opts1 ''purpose'' = Some ''hardware''
         then (case get_setup_purpose c st1 of
                 Inl err \<Rightarrow> (Inl err, st1)
               | Inr p \<Rightarrow>
                   (Inr (Proceed (AList.update ''purpose'' p opts1)),
                    store_options e (AList.update ''purpose'' p opts1) st1))
         else (Inr (Proceed opts1), st1))"

text \<open>
  \<open>**setup_options\<close>: \<open>__setup\<close> takes the keywords \<open>purpose\<close> and \<open>is_top_module\<close>,
  \<open>__generate\<close> the keyword \<open>purpose\<close>; any other keyword is a TypeError. The values of
  the model are strings, true when not empty.
\<close>

definition setup_kwargs :: "(string \<times> string) list \<Rightarrow> error + (string \<times> bool)" where
  "setup_kwargs opts =
     (if \<exists>k \<in> fst ` set opts. k \<noteq> ''purpose'' \<and> k \<noteq> ''is_top_module''
      then Inl (TypeError ''__setup() got an unexpected keyword argument'')
      else Inr (case map_of opts ''purpose'' of None \<Rightarrow> ''hardware'' | Some p \<Rightarrow> p,
                case map_of opts ''is_top_module'' of None \<Rightarrow> False | Some v \<Rightarrow> v \<noteq> []))"

definition generate_kwargs :: "(string \<times> string) list \<Rightarrow> error + string" where
  "generate_kwargs opts =
     (if \<exists>k \<in> fst ` set opts. k \<noteq> ''purpose''
      then Inl (TypeError ''__generate() got an unexpected keyword argument'')
      else Inr (case map_of opts ''purpose'' of None \<Rightarrow> ''hardware'' | Some p \<Rightarrow> p))"

definition generate_entry :: "nat \<Rightarrow> (string \<times> string) list \<Rightarrow> state \<Rightarrow> result" where
  "generate_entry a opts st =
     (case generate_kwargs opts of
        Inl err \<Rightarrow> Raised err st
      | Inr p \<Rightarrow>
          (case generate (heap st a) p of
             Inl err \<Rightarrow> Raised err st
           | Inr d \<Rightarrow> Done (st\<lparr>heap := (heap st)(a := d)\<rparr>)))"

subsection \<open>__setup and the methods that call it\<close>

definition purposes :: "cid \<Rightarrow> state \<Rightarrow> string list" where
  "purposes c st = (case setup_purpose (classes st c) of None \<Rightarrow> [] | Some ps \<Rightarrow> ps)"

definition init_purposes :: "cid \<Rightarrow> state \<Rightarrow> state" where
  "init_purposes c st =
     (if setup_purpose (classes st c) = None
      then update_class c (\<lambda>k. k\<lparr>setup_purpose := Some []\<rparr>) st
      else st)"

text \<open>
  The first-time steps of \<open>__setup\<close>: the attributes are initialised and, for the top
  module, the build directory is created, both only while the list of purposes is empty.
\<close>

definition first_setup :: "env \<Rightarrow> cid \<Rightarrow> bool \<Rightarrow> state \<Rightarrow> result" where
  "first_setup E c is_top st =
     and_then (if purposes c st = []
               then init_attributes c (update_class c (\<lambda>k. k\<lparr>is_top_module := is_top\<rparr>) st)
               else Done st)
       (\<lambda>st1. if is_top \<and> purposes c st1 = [] then create_build_dir E c st1 else Done st1)"

definition add_purpose :: "cid \<Rightarrow> string \<Rightarrow> state \<Rightarrow> state" where
  "add_purpose c purpose st =
     update_class c (\<lambda>k. k\<lparr>setup_purpose := Some (purposes c st @ [purpose])\<rparr>) st"

definition iob_ctls :: cid where
  "iob_ctls = ''iob_ctls''"

text \<open>
  \<open>__setup\<close> calls itself through \<open>_setup_submodules\<close> and \<open>_auto_add_settings\<close>. The
  methods on the way take the callee as the argument \<open>setup\<close>: it is \<open>__setup\<close> with the
  fuel that is left.
\<close>

type_synonym setup_method = "cid \<Rightarrow> string \<Rightarrow> bool \<Rightarrow> state \<Rightarrow> result option"

definition setup_entry :: "setup_method \<Rightarrow> cid \<Rightarrow> submodule \<Rightarrow> (string \<times> string) list \<Rightarrow> state \<Rightarrow> result option" where
  "setup_entry setup c e opts st =
     (case entry_target e of
        InterfaceDict a \<Rightarrow> Some (generate_entry a opts st)
      | ClassRef d \<Rightarrow>
          (case setup_kwargs opts of
             Inl err \<Rightarrow> Some (Raised err st)
           | Inr (p, t) \<Rightarrow> setup d p t st)
      | OtherClass s \<Rightarrow> Some (Raised (UnknownSubmoduleType (name (classes st c)) s) st)
      | OtherObject s \<Rightarrow> Some (Raised (TypeError ''issubclass() arg 1 must be a class'') st))"

fun setup_submodules :: "setup_method \<Rightarrow> cid \<Rightarrow> submodule list \<Rightarrow> state \<Rightarrow> result option" where
  "setup_submodules setup c [] st = Some (Done st)"
| "setup_submodules setup c (e # es) st =
     (case resolve_options c e st of
        (Inl err, st1) \<Rightarrow> Some (Raised err st1)
      | (Inr Skip, st1) \<Rightarrow> setup_submodules setup c es st1
      | (Inr (Proceed opts), st1) \<Rightarrow>
          and_then_fuel (setup_entry setup c e opts st1)
            (\<lambda>st2. setup_submodules setup c es st2))"

text \<open>\<open>_specific_setup\<close>; \<open>_create_instances\<close> does nothing.\<close>

definition specific_setup :: "setup_method \<Rightarrow> cid \<Rightarrow> state \<Rightarrow> result option" where
  "specific_setup setup c st =
     and_then_fuel (setup_submodules setup c (submodule_list (classes st c)) st)
       (\<lambda>st1. Some (setup_block_groups c st1))"

definition auto_add_settings :: "env \<Rightarrow> setup_method \<Rightarrow> cid \<Rightarrow> state \<Rightarrow> result option" where
  "auto_add_settings E setup c st =
     and_then_fuel (Some (auto_add_version_macro E c st))
       (\<lambda>st1. if regs (classes st1 c) \<noteq> []
               then and_then_fuel
                      (if name (classes st1 c) \<noteq> ''iob_ctls''
                       then (case get_setup_purpose c st1 of
                               Inl err \<Rightarrow> Some (Raised err st1)
                             | Inr p \<Rightarrow> setup iob_ctls p False st1)
                       else Some (Done st1))
                      (\<lambda>st2. Some (auto_add_interfaces c st2))
               else Some (Done st1))"

definition post_setup :: "env \<Rightarrow> setup_method \<Rightarrow> cid \<Rightarrow> state \<Rightarrow> result option" where
  "post_setup E setup c st =
     and_then_fuel (Some (copy_srcs E c (emit (Call ''build_srcs.flows_setup'' [c]) st)))
       (\<lambda>st1. and_then_fuel (auto_add_settings E setup c st1)
                 (\<lambda>st2. Some (post_setup_tail E c st2)))"

definition setup_body :: "env \<Rightarrow> setup_method \<Rightarrow> setup_method" where
  "setup_body E setup c purpose is_top st =
     (let st0 = init_purposes c st in
      if purpose \<in> set (purposes c st0) \<or> ''hardware'' \<in> set (purposes c st0)
      then Some (Done st0)
      else and_then_fuel (Some (first_setup E c is_top st0))
             (\<lambda>st1. and_then_fuel (specific_setup setup c (add_purpose c purpose st1))
                       (\<lambda>st2. post_setup E setup c st2)))"

text \<open>\<open>__setup\<close>: with no fuel it does not return.\<close>

fun setup_module :: "env \<Rightarrow> nat \<Rightarrow> setup_method" where
  "setup_module E 0 = (\<lambda>c purpose is_top st. None)"
| "setup_module E (Suc n) = setup_body E (setup_module E n)"

text \<open>\<open>setup_as_top_module\<close>: \<open>cls.__setup(is_top_module=True)\<close>.\<close>

definition setup_as_top_module :: "env \<Rightarrow> nat \<Rightarrow> cid \<Rightarrow> state \<Rightarrow> result option" where
  "setup_as_top_module E n c st = setup_module E n c ''hardware'' True st"

subsection \<open>The classes of the examples\<close>

text \<open>
  \<open>iob_module\<close> itself, with the attributes of its declaration, and classes derived from
  it by overriding attributes and hooks.
\<close>

definition iob_module :: iob_class where
  "iob_module =
     \<lparr>name = ''iob_module'', version = ''1.0'', previous_version = None, flows = [],
      setup_dir = [], build_dir = [], confs = [], regs = [], ios = [], block_groups = [],
      wire_list = [], is_top_module = False, initialized_attributes = False,
      submodule_list = [], setup_purpose = None, own_submodules = [], own_confs = [],
      own_ios = [], own_regs = [], own_block_groups = [], mro = [''iob_module'']\<rparr>"

definition derived :: "string \<Rightarrow> string \<Rightarrow> iob_class" where
  "derived n dir =
     iob_module\<lparr>name := n, version := ''V0.10'', setup_dir := dir, mro := [n, ''iob_module'']\<rparr>"

definition example_env :: env where
  "example_env =
     \<lparr>lib_dir = ''/lib'',
      version_str_to_digits = (\<lambda>v. ''0010''),
      src_isdir = (\<lambda>p. p = ''/uart/hardware/src'' \<or> p = ''/soc/hardware/src''
                        \<or> p = ''/timer/hardware/src''),
      src_isfile = (\<lambda>p. False)\<rparr>"

text \<open>
  A system with a cycle: the top module \<open>iob_soc\<close> needs \<open>iob_uart\<close> and, for simulation,
  \<open>iob_tb\<close>; \<open>iob_uart\<close> needs \<open>iob_fifo\<close> through a tuple with empty options (the dictionary
  at address 1), and \<open>iob_fifo\<close> needs \<open>iob_uart\<close> back; \<open>iob_tb\<close> needs \<open>iob_uart\<close> too.
\<close>

definition soc_classes :: "cid \<Rightarrow> iob_class" where
  "soc_classes =
     (\<lambda>c. iob_module)
       (''iob_soc'' := (derived ''iob_soc'' ''/soc'')
           \<lparr>flows := ''sim'',
            own_submodules := [Plain (ClassRef ''iob_uart''), Tuple (ClassRef ''iob_tb'') 0]\<rparr>,
        ''iob_uart'' := (derived ''iob_uart'' ''/uart'')
           \<lparr>own_submodules := [Tuple (ClassRef ''iob_fifo'') 1]\<rparr>,
        ''iob_fifo'' := (derived ''iob_fifo'' [])
           \<lparr>own_submodules := [Plain (ClassRef ''iob_uart'')]\<rparr>,
        ''iob_tb'' := (derived ''iob_tb'' [])
           \<lparr>own_submodules := [Plain (ClassRef ''iob_uart'')]\<rparr>,
        ''iob_ctls'' := derived ''iob_ctls'' [])"

definition soc_state :: state where
  "soc_state =
     \<lparr>classes = soc_classes,
      heap = (\<lambda>a. [])(0 := [(''purpose'', ''simulation'')]),
      iob_module_build_dir = [],
      events = []\<rparr>"

text \<open>
  A core whose author declares a register named \<open>VERSION\<close> in the general group.
\<close>

definition reserved_regs :: "pydict list" where
  "reserved_regs =
     [[(''name'', PStr ''general''), (''descr'', PStr ''General Registers.''),
       (''regs'', PList [PDict [(''name'', PStr ''VERSION''), (''type'', PStr ''R''),
                                (''n_bits'', PInt 16)]])]]"

definition reserved_state :: state where
  "reserved_state =
     \<lparr>classes = (\<lambda>c. iob_module)
        (''iob_timer'' := (derived ''iob_timer'' ''/timer'')\<lparr>own_regs := reserved_regs\<rparr>,
         ''iob_ctls'' := derived ''iob_ctls'' []),
      heap = (\<lambda>a. []),
      iob_module_build_dir = [],
      events = []\<rparr>"

definition soc_graph :: "cid set" where
  "soc_graph = {''iob_soc'', ''iob_uart'', ''iob_fifo'', ''iob_tb'', ''iob_ctls''}"

definition soc_purposes :: "string set" where
  "soc_purposes = {''hardware'', ''simulation''}"

text \<open>
  The state of the system after \<open>iob_uart\<close> was set up for \<open>hardware\<close>.
\<close>

definition uart_done :: state where
  "uart_done =
     soc_state\<lparr>classes := soc_classes
        (''iob_uart'' := (soc_classes ''iob_uart'')
           \<lparr>setup_purpose := Some [''hardware''], initialized_attributes := True,
            submodule_list := [Tuple (ClassRef ''iob_fifo'') 1]\<rparr>)\<rparr>"

text \<open>
  \<open>iob_uart\<close> while it is set up for \<open>simulation\<close>, and later while it is set up for
  \<open>fpga\<close>, the option dictionary of its submodule holding the purpose of the first run.
\<close>

definition uart_simulation :: state where
  "uart_simulation =
     soc_state\<lparr>classes := soc_classes
        (''iob_uart'' := (soc_classes ''iob_uart'')
           \<lparr>setup_purpose := Some [''simulation''], initialized_attributes := True,
            submodule_list := [Tuple (ClassRef ''iob_fifo'') 1]\<rparr>)\<rparr>"

definition uart_fpga :: state where
  "uart_fpga =
     soc_state\<lparr>classes := soc_classes
        (''iob_uart'' := (soc_classes ''iob_uart'')
           \<lparr>setup_purpose := Some [''simulation'', ''fpga''], initialized_attributes := True,
            submodule_list := [Tuple (ClassRef ''iob_fifo'') 1]\<rparr>),
      heap := (heap soc_state)(1 := [(''purpose'', ''simulation'')])\<rparr>"

text \<open>
  \<open>iob_soc\<close> while it is set up as the top module, before its submodules are.
\<close>

definition soc_top :: state where
  "soc_top =
     soc_state\<lparr>classes := soc_classes
        (''iob_soc'' := (soc_classes ''iob_soc'')
           \<lparr>setup_purpose := Some [''simulation''], is_top_module := True,
            initialized_attributes := True,
            submodule_list := [Plain (ClassRef ''iob_uart''), Tuple (ClassRef ''iob_tb'') 0]\<rparr>)\<rparr>"

text \<open>
  A stand-in for \<open>__setup\<close> that only records the class and the purpose it is called with.
\<close>

definition recorded_setup :: setup_method where
  "recorded_setup d p t st = Some (Done (emit (Call ''__setup'' [d, p]) st))"

section \<open>Notions used by the properties of the setup\<close>

text \<open>
  What the recursion of the setup depends on: the purposes recorded for every class,
  the submodule lists, and the store of option dictionaries.
\<close>

definition footprint ::
  "state \<Rightarrow> (cid \<Rightarrow> string list \<times> submodule list \<times> submodule list)
            \<times> (nat \<Rightarrow> (string \<times> string) list)" where
  "footprint st =
     (\<lambda>c. (purposes c st, submodule_list (classes st c), own_submodules (classes st c)), heap st)"

text \<open>
  A finite dependency graph: a finite set \<open>C\<close> of classes that holds \<open>iob_ctls\<close> and every
  class named by a submodule entry of a class of \<open>C\<close> (the graph may have cycles), and a
  finite set \<open>P\<close> of purposes that holds \<open>hardware\<close>, the purposes recorded so far and the
  purposes that the option dictionaries of the entries ask for.
\<close>

definition entry_ok :: "cid set \<Rightarrow> string set \<Rightarrow> (nat \<Rightarrow> (string \<times> string) list) \<Rightarrow> submodule \<Rightarrow> bool" where
  "entry_ok C P h e =
     ((case entry_target e of ClassRef d \<Rightarrow> d \<in> C | _ \<Rightarrow> True)
      \<and> (case e of
           Plain t \<Rightarrow> True
         | Tuple t a \<Rightarrow> (case map_of (h a) ''purpose'' of None \<Rightarrow> True | Some p \<Rightarrow> p \<in> P)))"

definition graph_ok :: "cid set \<Rightarrow> string set \<Rightarrow> state \<Rightarrow> bool" where
  "graph_ok C P st =
     (finite C \<and> finite P \<and> ''hardware'' \<in> P \<and> iob_ctls \<in> C
      \<and> (\<forall>c\<in>C. set (purposes c st) \<subseteq> P
             \<and> (\<forall>e \<in> set (submodule_list (classes st c)) \<union> set (own_submodules (classes st c)).
                   entry_ok C P (heap st) e)))"

text \<open>
  The pairs of a class and a purpose for which \<open>__setup\<close> would still run its body.
\<close>

definition pending :: "cid set \<Rightarrow> string set \<Rightarrow> state \<Rightarrow> (cid \<times> string) set" where
  "pending C P st =
     {(c, p). c \<in> C \<and> p \<in> P \<and> p \<notin> set (purposes c st) \<and> ''hardware'' \<notin> set (purposes c st)}"

text \<open>
  From one state to a later one of a run: the purposes recorded for a class are only
  appended to, never after \<open>hardware\<close> and never twice (a list without repetition stays
  so), and a purpose that appears in an option dictionary was there or is in \<open>P\<close>.
\<close>

definition evolves :: "string set \<Rightarrow> state \<Rightarrow> state \<Rightarrow> bool" where
  "evolves P st st' =
     ((\<forall>c. prefix (purposes c st) (purposes c st')
           \<and> (''hardware'' \<in> set (purposes c st) \<longrightarrow> purposes c st' = purposes c st)
           \<and> (distinct (purposes c st) \<longrightarrow> distinct (purposes c st')))
      \<and> (\<forall>a p. map_of (heap st' a) ''purpose'' = Some p \<longrightarrow>
                 map_of (heap st a) ''purpose'' = Some p \<or> p \<in> P))"

text \<open>
  A setup method that returns for every class and purpose of the graph while fewer than
  \<open>n\<close> pairs are pending, and keeps the graph.
\<close>

definition runs_ok :: "cid set \<Rightarrow> string set \<Rightarrow> setup_method \<Rightarrow> nat \<Rightarrow> bool" where
  "runs_ok C P setup n =
     (\<forall>d p t s. graph_ok C P s \<and> d \<in> C \<and> p \<in> P \<and> card (pending C P s) < n \<longrightarrow>
        (\<exists>r. setup d p t s = Some r \<and> graph_ok C P (state_of r) \<and> evolves P s (state_of r)))"

text \<open>
  A step that touches no purpose and no option dictionary, and may give the class \<open>c\<close> its
  own submodule list (what \<open>init_attributes\<close> does).
\<close>

definition relinks :: "cid \<Rightarrow> state \<Rightarrow> state \<Rightarrow> bool" where
  "relinks c st st' =
     (heap st' = heap st
      \<and> (\<forall>d. purposes d st' = purposes d st
             \<and> own_submodules (classes st' d) = own_submodules (classes st d)
             \<and> (submodule_list (classes st' d) = submodule_list (classes st d)
                \<or> d = c \<and> submodule_list (classes st' d) = own_submodules (classes st d))))"

text \<open>
  A run from \<open>st\<close> that returns or raises (it does not run out of fuel), in a state that
  keeps the graph.
\<close>

definition returns_ok :: "cid set \<Rightarrow> string set \<Rightarrow> state \<Rightarrow> result option \<Rightarrow> bool" where
  "returns_ok C P st m =
     (\<exists>r. m = Some r \<and> graph_ok C P (state_of r) \<and> evolves P st (state_of r))"

text \<open>
  What an entry of \<open>submodule_list\<close> asks for: the purpose of its setup options,
  \<open>hardware\<close> when the options have none, and the keyword \<open>is_top_module\<close>.
\<close>

definition requested_purpose :: "submodule \<Rightarrow> state \<Rightarrow> string" where
  "requested_purpose e st =
     (case map_of (entry_options e st) ''purpose'' of None \<Rightarrow> ''hardware'' | Some p \<Rightarrow> p)"

definition requested_top :: "(string \<times> string) list \<Rightarrow> bool" where
  "requested_top opts = (case map_of opts ''is_top_module'' of None \<Rightarrow> False | Some v \<Rightarrow> v \<noteq> [])"

text \<open>
  A register list whose author declared a register named \<open>VERSION\<close> in the general group:
  every group up to the first one named \<open>general\<close> has a name, the registers of that group
  are a list, and one of them is named \<open>VERSION\<close>, after registers that are dictionaries
  with another name.
\<close>

definition named_register :: "pyval \<Rightarrow> bool" where
  "named_register r =
     (case r of
        PDict d \<Rightarrow> (case map_of d ''name'' of None \<Rightarrow> False | Some n \<Rightarrow> n \<noteq> PStr ''VERSION'')
      | _ \<Rightarrow> False)"

definition declares_version :: "pydict list \<Rightarrow> bool" where
  "declares_version rgs =
     (\<exists>i rs before d after.
        find_general rgs = Inr (Some i)
        \<and> map_of (rgs ! i) ''regs'' = Some (PList rs)
        \<and> rs = before @ [PDict d] @ after
        \<and> list_all named_register before
        \<and> map_of d ''name'' = Some (PStr ''VERSION''))"

section \<open>Properties of the template instantiation engine\<close>


lemma list_insert_after_prefix:
  "list_insert (int (length pre)) x (pre @ rest) = pre @ x # rest"
  by (simp add: list_insert_def Let_def)



subsection \<open>The splice scenario\<close>

lemma readlines_splice: "readlines (concat splice_template) = splice_template"
  by (simp add: splice_template_def readlines_def newline_def carriage_return_def)





lemma example_template: "readlines (concat splice_template) = splice_template"
  by (rule readlines_splice)





subsection \<open>Header includes and the missing template\<close>

lemma set_first_seen: "set (first_seen xs) = set xs"
  by (induction xs) auto

lemma first_seen_filter: "filter P (first_seen xs) = first_seen (filter P xs)"
proof (induction xs)
  case Nil
  show ?case by simp
next
  case (Cons x xs)
  have comm: "filter P (filter (\<lambda>y. y \<noteq> x) (first_seen xs))
        = filter (\<lambda>y. y \<noteq> x) (first_seen (filter P xs))"
  proof -
    have "filter P (filter (\<lambda>y. y \<noteq> x) ys) = filter (\<lambda>y. y \<noteq> x) (filter P ys)" for ys
      by (induction ys) auto
    then show ?thesis by (simp only: Cons.IH)
  qed
  show ?case
  proof (cases "P x")
    case True
    then show ?thesis using comm by simp
  next
    case False
    then have "x \<notin> set (first_seen (filter P xs))" by (simp add: set_first_seen)
    then have "filter (\<lambda>y. y \<noteq> x) (first_seen (filter P xs)) = first_seen (filter P xs)"
      by (simp add: filter_id_conv) blast
    then show ?thesis using False comm by simp
  qed
qed

lemma distinct_first_seen: "distinct (first_seen xs)"
  by (induction xs) (auto simp: set_first_seen)

lemma insert_header_loop_at:
  "insert_header_loop h (int (length pre)) ps included (pre @ rest)
     = pre @ rev (map (\<lambda>t. include_line (meta_name h t))
                   (first_seen (filter (\<lambda>t. t \<notin> set included) (map inst_type ps)))) @ rest"
proof (induction ps arbitrary: included rest)
  case Nil
  show ?case by simp
next
  case (Cons p ps)
  show ?case
  proof (cases "inst_type p \<in> set included")
    case True
    then show ?thesis using Cons.IH[of included rest] by simp
  next
    case False
    have flt: "filter (\<lambda>y. y \<noteq> inst_type p)
                 (first_seen (filter (\<lambda>t. t \<notin> set included) (map inst_type ps)))
               = first_seen (filter (\<lambda>t. t \<notin> set (included @ [inst_type p])) (map inst_type ps))"
    proof -
      have "filter (\<lambda>y. y \<noteq> inst_type p) (filter (\<lambda>t. t \<notin> set included) xs)
            = filter (\<lambda>t. t \<notin> set (included @ [inst_type p])) xs" for xs
        by (induction xs) auto
      then show ?thesis by (simp only: first_seen_filter)
    qed
    show ?thesis
      using False Cons.IH[of "included @ [inst_type p]" "include_line (meta_name h (inst_type p)) # rest"]
      by (simp add: list_insert_after_prefix flt del: filter_filter)
  qed
qed

text \<open>
  Claim C7, amended. When a line of the template contains the header marker,
  \<open>insert_header_files\<close> inserts one include line per distinct peripheral type, all of
  them directly after the first marker line, in the reverse of the order in which the
  types are first seen in the peripherals list: every include line is inserted at the
  same index, so a later one lands above the earlier ones.
\<close>

theorem insert_header_files_reverse_first_seen:
  assumes "first_idx template_contents ''PHEADER'' = Some i"
  shows "insert_header_files h template_contents peripherals_list
           = take (Suc i) template_contents
             @ rev (map (\<lambda>t. include_line (meta_name h t))
                      (first_seen (map inst_type peripherals_list)))
             @ drop (Suc i) template_contents
         \<and> contains ''PHEADER'' (template_contents ! i)
         \<and> distinct (first_seen (map inst_type peripherals_list))
         \<and> set (first_seen (map inst_type peripherals_list)) = inst_type ` set peripherals_list"
proof -
  have bound: "first_idx tc w = Some j \<Longrightarrow> j < length tc \<and> contains w (tc ! j)" for tc w j
    by (induction tc arbitrary: j) (auto split: if_splits option.splits)
  from bound[OF assms] have i: "i < length template_contents"
    and c: "contains ''PHEADER'' (template_contents ! i)" by simp_all
  have idx: "find_idx h template_contents ''PHEADER''
               = int (length (take (Suc i) template_contents))"
    using assms i by (simp add: find_idx_def)
  have "insert_header_loop h (int (length (take (Suc i) template_contents))) peripherals_list []
          (take (Suc i) template_contents @ drop (Suc i) template_contents)
        = take (Suc i) template_contents
             @ rev (map (\<lambda>t. include_line (meta_name h t))
                      (first_seen (filter (\<lambda>t. t \<notin> set []) (map inst_type peripherals_list))))
             @ drop (Suc i) template_contents"
    by (rule insert_header_loop_at)
  then have "insert_header_files h template_contents peripherals_list
           = take (Suc i) template_contents
             @ rev (map (\<lambda>t. include_line (meta_name h t))
                      (first_seen (map inst_type peripherals_list)))
             @ drop (Suc i) template_contents"
    unfolding insert_header_files_def idx by simp
  then show ?thesis using c by (simp add: distinct_first_seen set_first_seen)
qed

lemma header_template_marker: "first_idx header_template ''PHEADER'' = Some 0"
  by (simp add: header_template_def)

lemma two_types_first_seen: "first_seen (map inst_type two_types) = [''A'', ''B'']"
  by (simp add: two_types_def)

theorem insert_header_files_reverse_first_seen_witness:
  "insert_header_files example_helpers header_template two_types
     = [''//PHEADER'' @ [newline], include_line ''B'', include_line ''A'', ''module top('' @ [newline]]"
  using insert_header_files_reverse_first_seen[OF header_template_marker, of example_helpers two_types]
  unfolding two_types_first_seen
  by (simp add: header_template_def example_helpers_def)

text \<open>
  Claim C7 as stated fails: for the types \<open>A\<close>, \<open>B\<close>, \<open>A\<close> the include lines are not in the
  order of first occurrence (\<open>A\<close> then \<open>B\<close>).
\<close>

theorem insert_header_files_order_counterexample:
  "insert_header_files example_helpers header_template two_types
     \<noteq> [''//PHEADER'' @ [newline], include_line ''A'', include_line ''B'', ''module top('' @ [newline]]"
proof -
  have "include_line ''B'' \<noteq> include_line ''A''"
    by (simp add: include_line_def)
  then show ?thesis
    using insert_header_loop_at[of example_helpers "[''//PHEADER'' @ [newline]]" two_types "[]" "[''module top('' @ [newline]]"]
    by (simp add: insert_header_files_def find_idx_def header_template_def two_types_first_seen
        example_helpers_def)
qed

text \<open>
  Claim C8. When the template file \<open>setup_dir/hardware/src/top.vt\<close> does not exist,
  \<open>create_systemv\<close> returns without an error and leaves the file system as it was: no
  file is created and none is modified.
\<close>

theorem create_systemv_without_template:
  assumes "\<not> isfile fs (template_path root_dir top_name)"
  shows "create_systemv h root_dir top_name peripherals_list out_file internal_wires fs = Inr fs"
  using assms by (simp add: create_systemv_def)

theorem create_systemv_without_template_witness:
  "create_systemv example_helpers ''/core'' ''uart'' [u0] ''/build/uart.v'' [] example_fs
     = Inr example_fs"
proof -
  have "\<not> isfile example_fs (template_path ''/core'' ''uart'')"
    by (simp add: isfile_def example_fs_def template_path_def)
  then show ?thesis by (rule create_systemv_without_template)
qed

section \<open>Properties of the declarative lists\<close>

lemma map_of_dict_update:
  "distinct (map fst other) \<Longrightarrow> map_of (dict_update d other) = map_of d ++ map_of other"
proof (induction other arbitrary: d)
  case Nil
  show ?case by (simp add: dict_update_def)
next
  case (Cons kv other)
  obtain k v where kv: "kv = (k, v)" by (cases kv)
  have k: "map_of other k = None"
    using Cons.prems kv by (simp add: map_of_eq_None_iff)
  have "map_of (dict_update d (kv # other)) = map_of (dict_update (AList.update k v d) other)"
    by (simp add: dict_update_def kv)
  also have "\<dots> = map_of (AList.update k v d) ++ map_of other"
    using Cons.IH[of "AList.update k v d"] Cons.prems by simp
  also have "\<dots> = map_of d ++ map_of (kv # other)"
  proof (rule ext)
    fix x
    show "(map_of (AList.update k v d) ++ map_of other) x = (map_of d ++ map_of (kv # other)) x"
      using k by (cases "x = k") (simp_all add: kv map_add_def update_conv' split: option.splits)
  qed
  finally show ?case .
qed


lemma name_of_dict_update:
  assumes "distinct (map fst item)" "name_of d = name_of item" "name_of item \<noteq> None"
  shows "name_of (dict_update d item) = name_of item"
  using assms by (auto simp: name_of_def map_of_dict_update map_add_def split: option.splits)

lemma update_dict_list_item_outcome:
  assumes "\<forall>d\<in>set dl. name_of d \<noteq> None" "name_of item \<noteq> None" "distinct (map fst item)"
  shows "\<exists>dl'. update_dict_list_item dl item = Inr dl'
           \<and> map name_of dl' = (if name_of item \<in> set (map name_of dl) then map name_of dl
                                else map name_of dl @ [name_of item])
           \<and> (\<forall>m. entry_fields dl' m = (if m = name_of item then entry_fields dl m ++ map_of item
                                           else entry_fields dl m))"
  using assms(1)
proof (induction dl)
  case Nil
  show ?case by (auto simp: entry_fields_def)
next
  case (Cons d ds)
  obtain a where a: "map_of d ''name'' = Some a" using Cons.prems by (auto simp: name_of_def)
  obtain b where b: "map_of item ''name'' = Some b" using assms(2) by (auto simp: name_of_def)
  show ?case
  proof (cases "a = b")
    case True
    then have same: "name_of d = name_of item" by (simp add: name_of_def a b)
    have upd: "name_of (dict_update d item) = name_of item"
      by (rule name_of_dict_update[OF assms(3) same assms(2)])
    have res: "update_dict_list_item (d # ds) item = Inr (dict_update d item # ds)"
      by (simp add: a b True)
    show ?thesis
      unfolding res using same upd
      by (auto simp: entry_fields_def map_of_dict_update[OF assms(3)])
  next
    case False
    then have diff: "name_of d \<noteq> name_of item" by (simp add: name_of_def a b)
    from Cons.IH Cons.prems obtain ds' where ds': "update_dict_list_item ds item = Inr ds'"
      and names: "map name_of ds' = (if name_of item \<in> set (map name_of ds) then map name_of ds
                                else map name_of ds @ [name_of item])"
      and fields: "\<forall>m. entry_fields ds' m = (if m = name_of item then entry_fields ds m ++ map_of item
                                           else entry_fields ds m)"
      by auto
    have res: "update_dict_list_item (d # ds) item = Inr (d # ds')"
      by (simp add: a b False ds')
    have ef: "entry_fields (d # l) m = (if name_of d = m then map_of d else entry_fields l m)" for l m
      by (simp add: entry_fields_def)
    show ?thesis
      unfolding res using diff names fields by (auto simp: ef)
  qed
qed

lemma update_dict_list_item_named:
  assumes "update_dict_list_item dl item = Inr dl'" "\<forall>d\<in>set dl. name_of d \<noteq> None"
    "name_of item \<noteq> None" "distinct (map fst item)"
  shows "\<forall>d\<in>set dl'. name_of d \<noteq> None"
proof -
  from update_dict_list_item_outcome[OF assms(2-4)] assms(1)
  have "set (map name_of dl') \<subseteq> set (map name_of dl) \<union> {name_of item}"
    by (auto split: if_splits)
  then show ?thesis using assms(2,3) by auto
qed

lemma update_dict_list_outcome:
  assumes "\<forall>d\<in>set dl. name_of d \<noteq> None"
    and "\<forall>d\<in>set items. name_of d \<noteq> None \<and> distinct (map fst d)"
  shows "\<exists>r. update_dict_list dl items = (r, None)
           \<and> map name_of r = map name_of dl
                @ filter (\<lambda>n. n \<notin> set (map name_of dl)) (first_seen (map name_of items))
           \<and> (\<forall>m. entry_fields r m = merged_fields dl items m)"
  using assms
proof (induction items arbitrary: dl)
  case Nil
  show ?case by (simp add: merged_fields_def)
next
  case (Cons item items)
  have it: "name_of item \<noteq> None" "distinct (map fst item)" using Cons.prems(2) by auto
  from update_dict_list_item_outcome[OF Cons.prems(1) it]
  obtain dl' where dl': "update_dict_list_item dl item = Inr dl'"
    and names: "map name_of dl' = (if name_of item \<in> set (map name_of dl) then map name_of dl
                                else map name_of dl @ [name_of item])"
    and fields: "\<forall>m. entry_fields dl' m = (if m = name_of item then entry_fields dl m ++ map_of item
                                           else entry_fields dl m)"
    by auto
  have named': "\<forall>d\<in>set dl'. name_of d \<noteq> None"
    by (rule update_dict_list_item_named[OF dl' Cons.prems(1) it])
  from Cons.IH[OF named'] Cons.prems(2)
  obtain r where r: "update_dict_list dl' items = (r, None)"
    and rn: "map name_of r = map name_of dl'
                @ filter (\<lambda>n. n \<notin> set (map name_of dl')) (first_seen (map name_of items))"
    and rf: "\<forall>m. entry_fields r m = merged_fields dl' items m"
    by auto
  have res: "update_dict_list dl (item # items) = (r, None)"
    by (simp add: dl' r)
  have n2: "map name_of r = map name_of dl
                @ filter (\<lambda>n. n \<notin> set (map name_of dl)) (first_seen (map name_of (item # items)))"
  proof (cases "name_of item \<in> set (map name_of dl)")
    case True
    have "filter (\<lambda>n. n \<notin> set (map name_of dl)) (filter (\<lambda>y. y \<noteq> name_of item) xs)
          = filter (\<lambda>n. n \<notin> set (map name_of dl)) xs" for xs
      using True by (induction xs) auto
    then show ?thesis using True rn names by simp
  next
    case False
    have "filter (\<lambda>n. n \<notin> set (map name_of dl)) (filter (\<lambda>y. y \<noteq> name_of item) xs)
          = filter (\<lambda>n. n \<notin> set (map name_of dl @ [name_of item])) xs" for xs
      by (induction xs) auto
    then show ?thesis using False rn names by simp
  qed
  have f2: "merged_fields dl' items m = merged_fields dl (item # items) m" for m
    using fields by (simp add: merged_fields_def)
  show ?case using res n2 rf f2 by simp
qed

lemma entry_fields_of_member:
  "distinct (map name_of r) \<Longrightarrow> e \<in> set r \<Longrightarrow> entry_fields r (name_of e) = map_of e"
  by (induction r) (auto simp: entry_fields_def)

text \<open>
  Claim C3, amended. For a list of named entries whose names are pairwise distinct and
  a list of named new items, \<open>update_dict_list\<close> returns without an error; the names of
  the result are the names of the list, in place, followed by the new names in the order
  in which they are first seen; every entry of the result has the fields of
  \<open>merged_fields\<close> for its name (the existing entry's fields, overridden key by key by
  each new item of that name, later items last; an item with a new name starts from no
  field); the names of the result are distinct, and its length is the number of distinct
  names, so that no item is dropped.
\<close>

theorem update_dict_list_merge_law:
  assumes "\<forall>d\<in>set dict_list \<union> set new_items. name_of d \<noteq> None"
    and "\<forall>d\<in>set new_items. distinct (map fst d)"
    and "distinct (map name_of dict_list)"
  shows "\<exists>r. update_dict_list dict_list new_items = (r, None)
           \<and> map name_of r = map name_of dict_list
                @ filter (\<lambda>n. n \<notin> set (map name_of dict_list)) (first_seen (map name_of new_items))
           \<and> (\<forall>e\<in>set r. map_of e = merged_fields dict_list new_items (name_of e))
           \<and> distinct (map name_of r)
           \<and> length r = card (name_of ` (set dict_list \<union> set new_items))"
proof -
  have "\<forall>d\<in>set dict_list. name_of d \<noteq> None"
    and "\<forall>d\<in>set new_items. name_of d \<noteq> None \<and> distinct (map fst d)"
    using assms(1,2) by auto
  from update_dict_list_outcome[OF this]
  obtain r where r: "update_dict_list dict_list new_items = (r, None)"
    and names: "map name_of r = map name_of dict_list
                @ filter (\<lambda>n. n \<notin> set (map name_of dict_list)) (first_seen (map name_of new_items))"
    and fields: "\<forall>m. entry_fields r m = merged_fields dict_list new_items m"
    by auto
  have dist: "distinct (map name_of r)"
    unfolding names using assms(3) by (auto simp: distinct_first_seen)
  have "set (map name_of r) = name_of ` (set dict_list \<union> set new_items)"
    unfolding names by (auto simp: set_first_seen)
  then have len: "length r = card (name_of ` (set dict_list \<union> set new_items))"
    using distinct_card[OF dist] by simp
  have "\<forall>e\<in>set r. map_of e = merged_fields dict_list new_items (name_of e)"
    using entry_fields_of_member[OF dist] fields by metis
  with r names dist len show ?thesis by blast
qed

theorem update_dict_list_merge_law_witness:
  "update_dict_list confs_a confs_b =
     ([[(''name'', ''DATA_W''), (''val'', ''64''), (''descr'', ''Data width'')],
       [(''name'', ''ADDR_W''), (''val'', ''16'')],
       [(''name'', ''FIFO_W''), (''val'', ''4''), (''max'', ''8'')]], None)
   \<and> length (fst (update_dict_list confs_a confs_b)) = 3
   \<and> card (name_of ` (set confs_a \<union> set confs_b)) = 3"
proof -
  have h1: "\<forall>d\<in>set confs_a \<union> set confs_b. name_of d \<noteq> None"
    by (simp add: confs_a_def confs_b_def name_of_def)
  have h2: "\<forall>d\<in>set confs_b. distinct (map fst d)"
    by (simp add: confs_b_def)
  have h3: "distinct (map name_of confs_a)"
    by (simp add: confs_a_def name_of_def)
  have ev: "update_dict_list confs_a confs_b =
     ([[(''name'', ''DATA_W''), (''val'', ''64''), (''descr'', ''Data width'')],
       [(''name'', ''ADDR_W''), (''val'', ''16'')],
       [(''name'', ''FIFO_W''), (''val'', ''4''), (''max'', ''8'')]], None)"
    by (simp add: confs_a_def confs_b_def dict_update_def)
  from update_dict_list_merge_law[OF h1 h2 h3] ev show ?thesis by auto
qed

text \<open>
  Claim C3 as stated fails for a list that holds a name twice: no item is merged, and
  the length stays above the number of distinct names.
\<close>

theorem update_dict_list_length_counterexample:
  "update_dict_list confs_twice [] = (confs_twice, None)
   \<and> length confs_twice \<noteq> card (name_of ` (set confs_twice \<union> set []))"
  by (simp add: confs_twice_def name_of_def)

section \<open>Properties of copy_with_rename\<close>

lemma replace_absent: "\<not> contains old s \<Longrightarrow> replace old new s = s"
  by (induction s) auto

lemma prefix_within:
  "prefix xs (ys @ zs) \<Longrightarrow> length xs \<le> length ys \<Longrightarrow> prefix xs ys"
  by (metis prefix_length_prefix prefixI)

lemma contains_prefix: "prefix w s \<Longrightarrow> contains w s"
  by (cases s) auto

lemma replace_leftmost:
  assumes "old \<noteq> []" "\<not> contains old (u @ butlast old)"
  shows "replace old new (u @ old @ r) = u @ new @ replace old new r"
  using assms(2)
proof (induction u)
  case Nil
  obtain c cs where old: "old = c # cs" using assms(1) by (cases old) auto
  show ?case by (simp add: old)
next
  case (Cons c u)
  have len: "length old \<le> length ((c # u) @ butlast old)" by simp
  have "\<not> prefix old ((c # u) @ butlast old)"
    using Cons.prems contains_prefix by blast
  moreover have "(c # u) @ old @ r = ((c # u) @ butlast old) @ (last old # r)"
    using assms(1) by simp
  ultimately have np: "\<not> prefix old (c # u @ old @ r)"
    using prefix_within[OF _ len] by (metis append_Cons)
  have "\<not> contains old (u @ butlast old)" using Cons.prems by simp
  with Cons.IH np assms(1) show ?case by simp
qed

lemma concat_splitlines: "concat (splitlines s) = s"
  by (induction s) (auto split: list.splits)

lemma concat_readlines: "concat (readlines s) = universal_newlines s"
  by (simp add: readlines_def concat_splitlines)

lemma universal_newlines_no_cr: "carriage_return \<notin> set (universal_newlines s)"
  by (induction s rule: universal_newlines.induct) (auto simp: newline_def carriage_return_def)

lemma universal_newlines_id: "carriage_return \<notin> set s \<Longrightarrow> universal_newlines s = s"
  by (induction s rule: universal_newlines.induct) auto

text \<open>
  Claim C5, amended. For a source file that reads as text, \<open>copy_func\<close> writes one file,
  in the destination directory, under the base name of the destination path after the
  two replacements, and changes no other file. Its content is the text of the source as
  \<open>open(src, "r")\<close> reads it (a carriage return with its line feed, and a carriage return
  alone, read as a line feed: the text has no carriage return left, and a source without
  any is read as it is), line by line after two passes of \<open>str.replace\<close>: the old name by
  the new one, then, on the result of the first pass, the upper-cased old name by the
  upper-cased new one. Its permission bits are those of the source. A pass of
  \<open>str.replace\<close> leaves a text without an occurrence as it is; otherwise it keeps the text
  before the leftmost occurrence, puts the replacement for it and goes on after it. For a
  source file that does not read as text (and is not its own destination) the destination
  holds the content of the source unchanged, with the permission bits of the source.
  Nothing says that the old name is absent from the result, or that the text around the
  occurrences of the old name survives the second pass.
\<close>

theorem copy_with_rename_result:
  assumes "fs src = Some f"
  shows "(is_text f \<longrightarrow>
            (\<exists>fs'. copy_with_rename old new src dst fs = Inr fs'
               \<and> fs' (path_join (dirname dst)
                         (basename (replace (upper old) (upper new) (replace old new dst))))
                   = Some \<lparr>content = concat (map (\<lambda>l. replace (upper old) (upper new)
                                                       (replace old new l))
                                              (readlines (content f))),
                           is_text = True, st_mode = st_mode f\<rparr>
               \<and> (\<forall>p. p \<noteq> path_join (dirname dst)
                               (basename (replace (upper old) (upper new) (replace old new dst)))
                        \<longrightarrow> fs' p = fs p)))
       \<and> (\<not> is_text f
          \<and> src \<noteq> path_join (dirname dst)
                     (basename (replace (upper old) (upper new) (replace old new dst))) \<longrightarrow>
            (\<exists>fs'. copy_with_rename old new src dst fs = Inr fs'
               \<and> fs' (path_join (dirname dst)
                         (basename (replace (upper old) (upper new) (replace old new dst))))
                   = Some \<lparr>content = content f, is_text = False, st_mode = st_mode f\<rparr>
               \<and> (\<forall>p. p \<noteq> path_join (dirname dst)
                               (basename (replace (upper old) (upper new) (replace old new dst)))
                        \<longrightarrow> fs' p = fs p)))
       \<and> concat (readlines (content f)) = universal_newlines (content f)
       \<and> carriage_return \<notin> set (universal_newlines (content f))
       \<and> (carriage_return \<notin> set (content f) \<longrightarrow> universal_newlines (content f) = content f)
       \<and> (\<forall>a b s. \<not> contains a s \<longrightarrow> replace a b s = s)
       \<and> (\<forall>a b u r. a \<noteq> [] \<and> \<not> contains a (u @ butlast a) \<longrightarrow>
              replace a b (u @ a @ r) = u @ b @ replace a b r)"
proof (intro conjI impI allI)
  assume "is_text f"
  then show "\<exists>fs'. copy_with_rename old new src dst fs = Inr fs'
               \<and> fs' (path_join (dirname dst)
                         (basename (replace (upper old) (upper new) (replace old new dst))))
                   = Some \<lparr>content = concat (map (\<lambda>l. replace (upper old) (upper new)
                                                       (replace old new l))
                                              (readlines (content f))),
                           is_text = True, st_mode = st_mode f\<rparr>
               \<and> (\<forall>p. p \<noteq> path_join (dirname dst)
                               (basename (replace (upper old) (upper new) (replace old new dst)))
                        \<longrightarrow> fs' p = fs p)"
    using assms
    by (simp add: copy_with_rename_def Let_def write_text_def chmod_def writelines_def
        rename_text_def[abs_def])
next
  assume "\<not> is_text f \<and> src \<noteq> path_join (dirname dst)
                     (basename (replace (upper old) (upper new) (replace old new dst)))"
  then show "\<exists>fs'. copy_with_rename old new src dst fs = Inr fs'
               \<and> fs' (path_join (dirname dst)
                         (basename (replace (upper old) (upper new) (replace old new dst))))
                   = Some \<lparr>content = content f, is_text = False, st_mode = st_mode f\<rparr>
               \<and> (\<forall>p. p \<noteq> path_join (dirname dst)
                               (basename (replace (upper old) (upper new) (replace old new dst)))
                        \<longrightarrow> fs' p = fs p)"
    using assms
    by (simp add: copy_with_rename_def Let_def copyfile_def chmod_def rename_text_def)
next
  show "concat (readlines (content f)) = universal_newlines (content f)"
    by (rule concat_readlines)
  show "carriage_return \<notin> set (universal_newlines (content f))"
    by (rule universal_newlines_no_cr)
next
  assume "carriage_return \<notin> set (content f)"
  then show "universal_newlines (content f) = content f" by (rule universal_newlines_id)
next
  fix a b s assume "\<not> contains a s"
  then show "replace a b s = s" by (rule replace_absent)
next
  fix a b u r assume "a \<noteq> [] \<and> \<not> contains a (u @ butlast a)"
  then show "replace a b (u @ a @ r) = u @ b @ replace a b r"
    by (simp add: replace_leftmost)
qed

lemma upper_soc: "upper ''iob_soc'' = ''IOB_SOC''" "upper ''iob_soc_sut'' = ''IOB_SOC_SUT''"
  by code_simp+

lemma soc_dst: "path_join (dirname ''/build/hardware/src/iob_soc.v'')
                  (basename (replace (upper ''iob_soc'') (upper ''iob_soc_sut'')
                     (replace ''iob_soc'' ''iob_soc_sut'' ''/build/hardware/src/iob_soc.v'')))
                = ''/build/hardware/src/iob_soc_sut.v''"
  by (simp add: upper_soc path_join_def dirname_def basename_def slash_def)

lemma soc_lines: "readlines soc_source
   = [''module iob_soc (iob_soc_x);'' @ [newline], ''// IOB_SOC top'' @ [newline]]"
  by (simp add: soc_source_def readlines_def carriage_return_def newline_def)

lemma soc_renamed:
  "concat (map (\<lambda>l. replace (upper ''iob_soc'') (upper ''iob_soc_sut'')
                      (replace ''iob_soc'' ''iob_soc_sut'' l)) (readlines soc_source))
   = ''module iob_soc_sut (iob_soc_sut_x);'' @ [newline] @ ''// IOB_SOC_SUT top'' @ [newline]"
  unfolding soc_lines by (simp add: upper_soc newline_def)

theorem copy_with_rename_result_witness:
  "\<exists>fs'. copy_with_rename ''iob_soc'' ''iob_soc_sut'' ''/soc/hardware/src/iob_soc.v''
            ''/build/hardware/src/iob_soc.v'' soc_fs = Inr fs'
         \<and> fs' ''/build/hardware/src/iob_soc_sut.v''
             = Some \<lparr>content = ''module iob_soc_sut (iob_soc_sut_x);'' @ [newline]
                                @ ''// IOB_SOC_SUT top'' @ [newline],
                     is_text = True, st_mode = 493\<rparr>"
proof -
  let ?f = "\<lparr>content = soc_source, is_text = True, st_mode = 493\<rparr>"
  have src: "soc_fs ''/soc/hardware/src/iob_soc.v'' = Some ?f"
    by (simp add: soc_fs_def)
  have "is_text ?f" by simp
  with copy_with_rename_result[of soc_fs "''/soc/hardware/src/iob_soc.v''" ?f
      "''iob_soc''" "''iob_soc_sut''" "''/build/hardware/src/iob_soc.v''"] src
  obtain fs' where "copy_with_rename ''iob_soc'' ''iob_soc_sut'' ''/soc/hardware/src/iob_soc.v''
            ''/build/hardware/src/iob_soc.v'' soc_fs = Inr fs'"
    and "fs' (path_join (dirname ''/build/hardware/src/iob_soc.v'')
                  (basename (replace (upper ''iob_soc'') (upper ''iob_soc_sut'')
                     (replace ''iob_soc'' ''iob_soc_sut'' ''/build/hardware/src/iob_soc.v''))))
         = Some \<lparr>content = concat (map (\<lambda>l. replace (upper ''iob_soc'') (upper ''iob_soc_sut'')
                      (replace ''iob_soc'' ''iob_soc_sut'' l)) (readlines (content ?f))),
                           is_text = True, st_mode = st_mode ?f\<rparr>"
    by blast
  then show ?thesis
    unfolding soc_dst by (intro exI[of _ fs']) (simp add: soc_renamed[simplified])
qed

text \<open>
  Claim C5 as stated fails when the new name contains the old one, as the name of a
  core derived from another does: the copy of \<open>iob_soc.v\<close> for \<open>iob_soc_sut\<close> still contains
  \<open>iob_soc\<close> and \<open>IOB_SOC\<close>, in its content and in its file name; and the rest of the text
  is not kept byte for byte, since the carriage returns of the source are gone.
\<close>

theorem copy_with_rename_old_name_counterexample:
  "(case copy_with_rename ''iob_soc'' ''iob_soc_sut'' ''/soc/hardware/src/iob_soc.v''
           ''/build/hardware/src/iob_soc.v'' soc_fs of
      Inl e \<Rightarrow> False
    | Inr fs' \<Rightarrow>
        (case fs' ''/build/hardware/src/iob_soc_sut.v'' of
           None \<Rightarrow> False
         | Some g \<Rightarrow> contains ''iob_soc'' (content g) \<and> contains ''IOB_SOC'' (content g)
                     \<and> content g \<noteq> replace ''IOB_SOC'' ''IOB_SOC_SUT''
                                       (replace ''iob_soc'' ''iob_soc_sut'' soc_source)))
   \<and> contains ''iob_soc'' ''iob_soc_sut.v''"
proof -
  have "copy_with_rename ''iob_soc'' ''iob_soc_sut'' ''/soc/hardware/src/iob_soc.v''
           ''/build/hardware/src/iob_soc.v'' soc_fs
        = Inr (soc_fs(''/build/hardware/src/iob_soc_sut.v'' \<mapsto>
             \<lparr>content = ''module iob_soc_sut (iob_soc_sut_x);'' @ [newline]
                                @ ''// IOB_SOC_SUT top'' @ [newline],
                     is_text = True, st_mode = 493\<rparr>))"
    unfolding copy_with_rename_def rename_text_def[abs_def] soc_dst Let_def
    by (simp add: soc_fs_def write_text_def writelines_def chmod_def soc_renamed[simplified]
        create_mode_def)
  then show ?thesis by (simp add: newline_def soc_source_def carriage_return_def)
qed

section \<open>The setup keeps the dependency graph and returns\<close>

lemma state_of_simps [simp]: "state_of (Done s) = s" "state_of (Raised e s) = s"
  by (simp_all add: state_of_def)

lemma footprint_emit [simp]: "footprint (emit e st) = footprint st"
  by (simp add: footprint_def emit_def purposes_def)

lemma footprint_update_class:
  assumes "setup_purpose (f (classes st c)) = setup_purpose (classes st c)
           \<or> (setup_purpose (classes st c) = None \<and> setup_purpose (f (classes st c)) = Some [])"
    and "submodule_list (f (classes st c)) = submodule_list (classes st c)"
    and "own_submodules (f (classes st c)) = own_submodules (classes st c)"
  shows "footprint (update_class c f st) = footprint st"
  using assms by (auto simp: footprint_def update_class_def purposes_def fun_eq_iff)

lemma footprint_and_then:
  assumes "footprint (state_of r) = footprint st"
    and "\<And>s. footprint s = footprint st \<Longrightarrow> footprint (state_of (f s)) = footprint st"
  shows "footprint (state_of (and_then r f)) = footprint st"
  using assms by (cases r) (simp_all add: and_then_def)

lemma footprint_init_purposes [simp]: "footprint (init_purposes c st) = footprint st"
  by (simp add: init_purposes_def footprint_update_class)

lemma footprint_setup_block_groups [simp]:
  "footprint (state_of (setup_block_groups c st)) = footprint st"
  by (auto simp: setup_block_groups_def footprint_update_class split: prod.splits option.splits)

lemma footprint_create_build_dir [simp]:
  "footprint (state_of (create_build_dir E c st)) = footprint st"
  by (simp add: create_build_dir_def Let_def)

lemma footprint_copy_dirs [simp]:
  "footprint (state_of (copy_dirs E c m ds st)) = footprint st"
  by (induction ds arbitrary: st) (auto split: sum.splits)

lemma footprint_copy_classes [simp]:
  "footprint (state_of (copy_classes E c ms prev st)) = footprint st"
proof (induction ms arbitrary: prev st)
  case Nil
  show ?case by simp
next
  case (Cons m ms)
  show ?case
    by (auto simp: Cons.IH intro!: footprint_and_then)
qed

lemma footprint_copy_srcs [simp]: "footprint (state_of (copy_srcs E c st)) = footprint st"
  by (simp add: copy_srcs_def)

lemma footprint_auto_add_version_macro [simp]:
  "footprint (state_of (auto_add_version_macro E c st)) = footprint st"
  by (auto simp: auto_add_version_macro_def footprint_update_class split: sum.splits bool.splits)

lemma footprint_generate_literal [simp]:
  "footprint (state_of (generate_literal d p st)) = footprint st"
  by (simp add: generate_literal_def split: sum.splits)

lemma footprint_auto_add_interfaces [simp]:
  "footprint (state_of (auto_add_interfaces c st)) = footprint st"
  by (auto simp: auto_add_interfaces_def split: sum.splits intro!: footprint_and_then)

lemma footprint_add_version_reg [simp]:
  "footprint (state_of (add_version_reg E c i st)) = footprint st"
  by (auto simp: add_version_reg_def Let_def footprint_update_class
      split: option.splits pyval.splits sum.splits)

lemma footprint_build_regs_table [simp]:
  "footprint (state_of (build_regs_table E c st)) = footprint st"
proof -
  have app: "footprint (update_class c (\<lambda>k. k\<lparr>regs := regs k @ [general_regs_table]\<rparr>) st) = footprint st"
    by (simp add: footprint_update_class)
  show ?thesis
    unfolding build_regs_table_def Let_def
    by (auto simp: app split: sum.splits option.splits intro!: footprint_and_then)
qed

lemma footprint_generate_hw [simp]: "footprint (generate_hw c st) = footprint st"
  by (simp add: generate_hw_def Let_def)

lemma footprint_generate_sw [simp]: "footprint (generate_sw c st) = footprint st"
  by (simp add: generate_sw_def Let_def)

lemma footprint_generate_doc [simp]: "footprint (generate_doc c st) = footprint st"
  by (simp add: generate_doc_def Let_def)

lemma footprint_generate_files [simp]:
  "footprint (state_of (generate_files E c st)) = footprint st"
  by (auto simp: generate_files_def intro!: footprint_and_then)

lemma footprint_run_setup_files_loop [simp]:
  "footprint (run_setup_files_loop E c fl st) = footprint st"
  by (induction fl arbitrary: st) auto

lemma footprint_remove_duplicate_loop [simp]:
  "footprint (remove_duplicate_loop c fl st) = footprint st"
  by (induction fl arbitrary: st) auto

lemma footprint_post_setup_tail [simp]:
  "footprint (state_of (post_setup_tail E c st)) = footprint st"
  by (auto simp: post_setup_tail_def Let_def run_setup_files_def replace_snippet_includes_def
      remove_duplicate_sources_def intro!: footprint_and_then)

lemma evolves_refl [simp]: "evolves P st st"
  by (simp add: evolves_def)

lemma evolves_purposes:
  assumes "evolves P st st'"
  shows "prefix (purposes c st) (purposes c st')"
    "''hardware'' \<in> set (purposes c st) \<Longrightarrow> purposes c st' = purposes c st"
    "distinct (purposes c st) \<Longrightarrow> distinct (purposes c st')"
    "set (purposes c st) \<subseteq> set (purposes c st')"
proof -
  from assms have a: "prefix (purposes c st) (purposes c st')
           \<and> (''hardware'' \<in> set (purposes c st) \<longrightarrow> purposes c st' = purposes c st)
           \<and> (distinct (purposes c st) \<longrightarrow> distinct (purposes c st'))"
    unfolding evolves_def by blast
  then show "prefix (purposes c st) (purposes c st')" by simp
  then show "set (purposes c st) \<subseteq> set (purposes c st')" by (rule set_mono_prefix)
  from a show "''hardware'' \<in> set (purposes c st) \<Longrightarrow> purposes c st' = purposes c st" by simp
  from a show "distinct (purposes c st) \<Longrightarrow> distinct (purposes c st')" by simp
qed

lemma evolves_heap:
  assumes "evolves P st st'" "map_of (heap st' a) ''purpose'' = Some p"
  shows "map_of (heap st a) ''purpose'' = Some p \<or> p \<in> P"
  using assms unfolding evolves_def by blast

lemma evolvesI:
  assumes "\<And>c. prefix (purposes c st) (purposes c st')"
    and "\<And>c. ''hardware'' \<in> set (purposes c st) \<Longrightarrow> purposes c st' = purposes c st"
    and "\<And>c. distinct (purposes c st) \<Longrightarrow> distinct (purposes c st')"
    and "\<And>a p. map_of (heap st' a) ''purpose'' = Some p \<Longrightarrow>
                 map_of (heap st a) ''purpose'' = Some p \<or> p \<in> P"
  shows "evolves P st st'"
  unfolding evolves_def using assms by blast

lemma evolves_trans:
  assumes a: "evolves P s1 s2" and b: "evolves P s2 s3"
  shows "evolves P s1 s3"
proof (rule evolvesI)
  fix c
  show "prefix (purposes c s1) (purposes c s3)"
    using evolves_purposes(1)[OF a, of c] evolves_purposes(1)[OF b, of c] by (rule prefix_order.trans)
  show "purposes c s3 = purposes c s1" if "''hardware'' \<in> set (purposes c s1)"
    using that evolves_purposes(2)[OF a, of c] evolves_purposes(2)[OF b, of c] by simp
  show "distinct (purposes c s3)" if "distinct (purposes c s1)"
    using that evolves_purposes(3)[OF a, of c] evolves_purposes(3)[OF b, of c] by simp
next
  fix x p assume "map_of (heap s3 x) ''purpose'' = Some p"
  from evolves_heap[OF b this] show "map_of (heap s1 x) ''purpose'' = Some p \<or> p \<in> P"
    using evolves_heap[OF a] by blast
qed

lemma footprint_eqD:
  assumes "footprint st' = footprint st"
  shows "heap st' = heap st" "purposes c st' = purposes c st"
    "submodule_list (classes st' c) = submodule_list (classes st c)"
    "own_submodules (classes st' c) = own_submodules (classes st c)"
proof -
  from assms have h: "snd (footprint st') = snd (footprint st)"
    and c: "fst (footprint st') c = fst (footprint st) c" by simp_all
  from h show "heap st' = heap st" by (simp add: footprint_def)
  from c show "purposes c st' = purposes c st"
    "submodule_list (classes st' c) = submodule_list (classes st c)"
    "own_submodules (classes st' c) = own_submodules (classes st c)"
    by (simp_all add: footprint_def)
qed

lemma footprint_evolves: "footprint st' = footprint st \<Longrightarrow> evolves P st st'"
  using footprint_eqD[of st' st] by (simp add: evolves_def)

lemma footprint_graph_ok: "footprint st' = footprint st \<Longrightarrow> graph_ok C P st' = graph_ok C P st"
  using footprint_eqD[of st' st] by (simp add: graph_ok_def)

lemma footprint_pending: "footprint st' = footprint st \<Longrightarrow> pending C P st' = pending C P st"
  using footprint_eqD[of st' st] by (simp add: pending_def)

lemma entry_ok_evolves:
  assumes ok: "entry_ok C P (heap st) e" and ev: "evolves P st st'"
  shows "entry_ok C P (heap st') e"
proof (cases e)
  case (Plain t)
  then show ?thesis using ok by (simp add: entry_ok_def)
next
  case (Tuple t x)
  have "p \<in> P" if p: "map_of (heap st' x) ''purpose'' = Some p" for p
  proof -
    from evolves_heap[OF ev p] have "map_of (heap st x) ''purpose'' = Some p \<or> p \<in> P" .
    then show ?thesis using ok Tuple by (auto simp: entry_ok_def)
  qed
  then show ?thesis using ok Tuple by (auto simp: entry_ok_def split: option.splits)
qed

lemma pending_evolves: "evolves P st st' \<Longrightarrow> pending C P st' \<subseteq> pending C P st"
  using evolves_purposes(4)[of P st st'] by (auto simp: pending_def)

lemma finite_pending: "finite C \<Longrightarrow> finite P \<Longrightarrow> finite (pending C P st)"
  by (rule finite_subset[of _ "C \<times> P"]) (auto simp: pending_def)

lemma card_pending_evolves:
  "graph_ok C P st \<Longrightarrow> evolves P st st' \<Longrightarrow> card (pending C P st') \<le> card (pending C P st)"
  by (intro card_mono finite_pending pending_evolves) (simp_all add: graph_ok_def)

lemma card_pending_bound: "graph_ok C P st \<Longrightarrow> card (pending C P st) \<le> card C * card P"
proof -
  assume g: "graph_ok C P st"
  then have fin: "finite (C \<times> P)" by (simp add: graph_ok_def)
  have "pending C P st \<subseteq> C \<times> P" by (auto simp: pending_def)
  from card_mono[OF fin this] show ?thesis by (simp add: card_cartesian_product)
qed

lemma footprint_relinks: "footprint st' = footprint st \<Longrightarrow> relinks c st st'"
  using footprint_eqD[of st' st] by (simp add: relinks_def)

lemma relinks_trans: "relinks c s1 s2 \<Longrightarrow> relinks c s2 s3 \<Longrightarrow> relinks c s1 s3"
  unfolding relinks_def by metis

lemma relinks_and_then:
  assumes "relinks c st (state_of r)"
    and "\<And>s. relinks c st s \<Longrightarrow> relinks c s (state_of (f s))"
  shows "relinks c st (state_of (and_then r f))"
  using assms by (cases r) (auto simp: and_then_def intro: relinks_trans)

lemma footprint_setup_confs [simp]: "footprint (state_of (setup_confs c st)) = footprint st"
  by (auto simp: setup_confs_def footprint_update_class split: prod.splits option.splits)

lemma footprint_setup_ios [simp]: "footprint (state_of (setup_ios c st)) = footprint st"
  by (auto simp: setup_ios_def footprint_update_class split: prod.splits option.splits)

lemma footprint_setup_regs [simp]: "footprint (state_of (setup_regs c st)) = footprint st"
  by (auto simp: setup_regs_def footprint_update_class split: prod.splits option.splits)

lemma footprint_set_build_dir [simp]: "footprint (set_build_dir c st) = footprint st"
proof -
  have "footprint (st\<lparr>iob_module_build_dir := x\<rparr>) = footprint st" for x
    by (simp add: footprint_def purposes_def)
  then show ?thesis
    by (simp add: set_build_dir_def Let_def footprint_update_class)
qed

lemma relinks_create_submodules_list:
  "submodule_list (classes st c) = [] \<Longrightarrow> relinks c st' st \<Longrightarrow>
   own_submodules (classes st c) = own_submodules (classes st' c) \<Longrightarrow>
   relinks c st' (create_submodules_list c st)"
  by (auto simp: relinks_def create_submodules_list_def update_class_def purposes_def)

lemma relinks_init_attributes: "relinks c st (state_of (init_attributes c st))"
proof (cases "initialized_attributes (classes st c)")
  case True
  then show ?thesis by (simp add: init_attributes_def relinks_def)
next
  case False
  define st1 where "st1 = update_class c (\<lambda>k. k\<lparr>initialized_attributes := True\<rparr>) st"
  define st2 where "st2 = set_build_dir c st1"
  define st3 where "st3 = update_class c
                        (\<lambda>k. if previous_version k = None \<or> previous_version k = Some []
                              then k\<lparr>previous_version := Some (version k)\<rparr> else k) st2"
  define st4 where "st4 = update_class c
                        (\<lambda>k. k\<lparr>confs := [], regs := [], ios := [], block_groups := [],
                               submodule_list := [], wire_list := []\<rparr>) st3"
  define st5 where "st5 = create_submodules_list c st4"
  have f3: "footprint st3 = footprint st"
    by (simp add: st3_def st2_def st1_def footprint_update_class)
  have h: "heap st5 = heap st4" "heap st4 = heap st3"
    by (simp_all add: st5_def st4_def create_submodules_list_def update_class_def)
  have p: "purposes d st5 = purposes d st3" for d
    by (simp add: st5_def st4_def create_submodules_list_def update_class_def purposes_def)
  have o: "own_submodules (classes st5 d) = own_submodules (classes st3 d)" for d
    by (simp add: st5_def st4_def create_submodules_list_def update_class_def)
  have s: "submodule_list (classes st5 d)
           = (if d = c then own_submodules (classes st3 d) else submodule_list (classes st3 d))" for d
    by (simp add: st5_def st4_def create_submodules_list_def update_class_def)
  have r5: "relinks c st st5"
    using footprint_eqD[OF f3] h p o s by (simp add: relinks_def)
  have run: "init_attributes c st
       = and_then (setup_confs c st5) (\<lambda>st6. and_then (setup_ios c st6) (setup_regs c))"
    using False by (simp add: init_attributes_def Let_def st1_def st2_def st3_def st4_def st5_def)
  have "footprint (state_of (and_then (setup_confs c st5)
          (\<lambda>st6. and_then (setup_ios c st6) (setup_regs c)))) = footprint st5"
    by (auto intro!: footprint_and_then)
  then show ?thesis
    unfolding run using r5 footprint_relinks relinks_trans by blast
qed

lemma relinks_first_setup: "relinks c st (state_of (first_setup E c t st))"
proof -
  have a: "relinks c st (update_class c (\<lambda>k. k\<lparr>is_top_module := t\<rparr>) st)"
    by (rule footprint_relinks) (simp add: footprint_update_class)
  have b: "relinks c st (state_of (if purposes c st = []
               then init_attributes c (update_class c (\<lambda>k. k\<lparr>is_top_module := t\<rparr>) st)
               else Done st))"
    using a relinks_init_attributes relinks_trans footprint_relinks by (cases "purposes c st = []") auto
  show ?thesis
    unfolding first_setup_def
    by (rule relinks_and_then[OF b]) (auto intro: footprint_relinks)
qed

lemma relinks_evolves: "relinks c st st' \<Longrightarrow> evolves P st st'"
  by (simp add: relinks_def evolves_def)

lemma relinks_pending: "relinks c st st' \<Longrightarrow> pending C P st' = pending C P st"
  by (simp add: relinks_def pending_def)

lemma relinks_purposes: "relinks c st st' \<Longrightarrow> purposes d st' = purposes d st"
  by (simp add: relinks_def)

lemma relinks_graph_ok:
  assumes "relinks c st st'" "graph_ok C P st"
  shows "graph_ok C P st'"
proof -
  have "entry_ok C P (heap st') e"
    if "d \<in> C" "e \<in> set (submodule_list (classes st' d)) \<union> set (own_submodules (classes st' d))"
    for d e
  proof -
    from assms(1) that(2)
    have "e \<in> set (submodule_list (classes st d)) \<union> set (own_submodules (classes st d))"
      unfolding relinks_def by (metis UnCI UnE)
    with assms(2) that(1) have "entry_ok C P (heap st) e" unfolding graph_ok_def by blast
    then show ?thesis using assms(1) by (simp add: relinks_def)
  qed
  then show ?thesis
    using assms by (simp add: graph_ok_def relinks_def)
qed

lemma purposes_add_purpose:
  "purposes d (add_purpose c p st) = (if d = c then purposes c st @ [p] else purposes d st)"
  by (simp add: add_purpose_def update_class_def purposes_def)

lemma add_purpose_graph_ok:
  assumes "graph_ok C P st" "p \<in> P"
  shows "graph_ok C P (add_purpose c p st)"
  using assms
  by (auto simp: graph_ok_def purposes_add_purpose)
     (auto simp: add_purpose_def update_class_def)

lemma add_purpose_evolves:
  assumes "p \<notin> set (purposes c st)" "''hardware'' \<notin> set (purposes c st)"
  shows "evolves P st (add_purpose c p st)"
proof (rule evolvesI)
  fix x q assume "map_of (heap (add_purpose c p st) x) ''purpose'' = Some q"
  then show "map_of (heap st x) ''purpose'' = Some q \<or> q \<in> P"
    by (simp add: add_purpose_def update_class_def)
qed (use assms in \<open>auto simp: purposes_add_purpose\<close>)

lemma add_purpose_pending:
  assumes "graph_ok C P st" "c \<in> C" "p \<in> P"
    "p \<notin> set (purposes c st)" "''hardware'' \<notin> set (purposes c st)"
  shows "card (pending C P (add_purpose c p st)) < card (pending C P st)"
proof -
  have fin: "finite (pending C P st)"
    using assms(1) by (simp add: graph_ok_def finite_pending)
  have "(c, p) \<in> pending C P st" using assms by (simp add: pending_def)
  moreover have "(c, p) \<notin> pending C P (add_purpose c p st)"
    by (simp add: pending_def purposes_add_purpose)
  moreover have "pending C P (add_purpose c p st) \<subseteq> pending C P st"
    by (rule pending_evolves[OF add_purpose_evolves[OF assms(4,5)]])
  ultimately have "pending C P (add_purpose c p st) \<subset> pending C P st" by blast
  then show ?thesis by (rule psubset_card_mono[OF fin])
qed

lemma heap_step_graph_ok:
  assumes g: "graph_ok C P st" and cl: "classes st' = classes st"
    and hp: "\<And>x p. map_of (heap st' x) ''purpose'' = Some p \<Longrightarrow>
                 map_of (heap st x) ''purpose'' = Some p \<or> p \<in> P"
  shows "graph_ok C P st'" "evolves P st st'" "pending C P st' = pending C P st"
proof -
  have pu: "purposes d st' = purposes d st" for d by (simp add: purposes_def cl)
  show ev: "evolves P st st'" using hp by (simp add: evolves_def pu)
  show "pending C P st' = pending C P st" by (simp add: pending_def pu)
  have "entry_ok C P (heap st') e" if "entry_ok C P (heap st) e" for e
    using that ev by (rule entry_ok_evolves)
  then show "graph_ok C P st'" using g by (simp add: graph_ok_def pu cl)
qed

lemma map_of_set_default:
  "k \<noteq> k' \<Longrightarrow> map_of (set_default k v d) k' = map_of d k'"
  by (simp add: set_default_def update_conv')

lemma generate_entry_step:
  assumes "graph_ok C P st"
  shows "graph_ok C P (state_of (generate_entry a opts st))"
    "evolves P st (state_of (generate_entry a opts st))"
proof -
  let ?st' = "state_of (generate_entry a opts st)"
  have cl: "classes ?st' = classes st"
    by (simp add: generate_entry_def split: sum.splits)
  have hp: "map_of (heap ?st' x) ''purpose'' = map_of (heap st x) ''purpose''" for x
    by (auto simp: generate_entry_def generate_def map_of_set_default split: sum.splits)
  show "graph_ok C P ?st'" "evolves P st ?st'"
    using heap_step_graph_ok[OF assms cl] hp by simp_all
qed

lemma last_purposes_in:
  assumes "graph_ok C P st" "c \<in> C" "get_setup_purpose c st = Inr p"
  shows "p \<in> P"
proof -
  from assms(3) obtain ps where ps: "setup_purpose (classes st c) = Some ps" "ps \<noteq> []" "p = last ps"
    by (auto simp: get_setup_purpose_def split: option.splits if_splits)
  then have "p \<in> set (purposes c st)" by (simp add: purposes_def)
  then show ?thesis using assms(1,2) by (auto simp: graph_ok_def)
qed

lemma classes_store_options [simp]: "classes (store_options e opts st) = classes st"
  by (cases e) (simp_all add: store_options_def)

lemma get_setup_purpose_store_options [simp]:
  "get_setup_purpose c (store_options e opts st) = get_setup_purpose c st"
  by (simp add: get_setup_purpose_def)

lemma heap_store_options:
  "map_of (heap (store_options e opts st) x) ''purpose'' = Some p \<Longrightarrow>
   map_of (heap st x) ''purpose'' = Some p \<or> map_of opts ''purpose'' = Some p"
  by (cases e) (auto simp: store_options_def split: if_splits)

lemma resolve_options_outcomes:
  assumes "resolve_options c e st = (x, st1)"
  obtains (skip) "x = Inr Skip"
      "st1 = store_options e (default_purpose (entry_options e st)) st"
      "map_of (default_purpose (entry_options e st)) ''purpose'' \<noteq> Some ''hardware''"
      "\<not> is_top_module (classes st c)"
  | (raise) err where "x = Inl err"
      "st1 = store_options e (default_purpose (entry_options e st)) st"
      "get_setup_purpose c st = Inl err"
      "map_of (default_purpose (entry_options e st)) ''purpose'' = Some ''hardware''"
  | (latest) p where
      "x = Inr (Proceed (AList.update ''purpose'' p (default_purpose (entry_options e st))))"
      "st1 = store_options e (AList.update ''purpose'' p (default_purpose (entry_options e st)))
               (store_options e (default_purpose (entry_options e st)) st)"
      "get_setup_purpose c st = Inr p"
      "map_of (default_purpose (entry_options e st)) ''purpose'' = Some ''hardware''"
  | (pinned) "x = Inr (Proceed (default_purpose (entry_options e st)))"
      "st1 = store_options e (default_purpose (entry_options e st)) st"
      "map_of (default_purpose (entry_options e st)) ''purpose'' \<noteq> Some ''hardware''"
      "is_top_module (classes st c)"
  using assms unfolding resolve_options_def Let_def
  by (auto split: if_splits sum.splits)

lemma default_purpose_value:
  "map_of (default_purpose opts) ''purpose''
     = (case map_of opts ''purpose'' of None \<Rightarrow> Some ''hardware'' | Some q \<Rightarrow> Some q)"
proof (cases "map_of opts ''purpose''")
  case None
  then have "''purpose'' \<notin> fst ` set opts" by (simp add: map_of_eq_None_iff)
  then show ?thesis using None by (simp add: default_purpose_def update_conv')
next
  case (Some q)
  then have "''purpose'' \<in> fst ` set opts" by (metis map_of_eq_None_iff option.distinct(1))
  then show ?thesis using Some by (simp add: default_purpose_def)
qed

lemma default_purpose_has_purpose: "map_of (default_purpose opts) ''purpose'' \<noteq> None"
  by (simp add: default_purpose_value split: option.splits)

lemma resolve_options_step:
  assumes g: "graph_ok C P st" and c: "c \<in> C" and e: "entry_ok C P (heap st) e"
    and r: "resolve_options c e st = (x, st1)"
  shows "graph_ok C P st1" "evolves P st st1" "pending C P st1 = pending C P st"
    and "\<And>opts p t. x = Inr (Proceed opts) \<Longrightarrow> setup_kwargs opts = Inr (p, t) \<Longrightarrow> p \<in> P"
    and "\<And>opts p. x = Inr (Proceed opts) \<Longrightarrow> generate_kwargs opts = Inr p \<Longrightarrow> p \<in> P"
proof -
  let ?opts1 = "default_purpose (entry_options e st)"
  have hw: "''hardware'' \<in> P" using g by (simp add: graph_ok_def)
  have o0: "map_of (entry_options e st) ''purpose'' = Some q \<Longrightarrow> q \<in> P" for q
    using e by (cases e) (auto simp: entry_options_def entry_ok_def)
  have o1: "map_of ?opts1 ''purpose'' = Some q \<Longrightarrow> q \<in> P" for q
    using o0 hw by (auto simp: default_purpose_value split: option.splits)
  have cl: "classes st1 = classes st"
    using r by (rule resolve_options_outcomes) simp_all
  have pin: "map_of (heap st x') ''purpose'' = Some p \<or> p \<in> P"
    if h: "map_of (heap st1 x') ''purpose'' = Some p" for x' p
    using r
  proof (cases rule: resolve_options_outcomes)
    case skip
    then show ?thesis using heap_store_options[of e ?opts1 st x' p] h o1 by auto
  next
    case (raise err)
    then show ?thesis using heap_store_options[of e ?opts1 st x' p] h o1 by auto
  next
    case (latest q)
    have q: "q \<in> P" by (rule last_purposes_in[OF g c latest(3)])
    from heap_store_options[of e "AList.update ''purpose'' q ?opts1" "store_options e ?opts1 st" x' p] h
    have "map_of (heap (store_options e ?opts1 st) x') ''purpose'' = Some p \<or> p = q"
      by (auto simp: latest(2) update_conv')
    then show ?thesis using heap_store_options[of e ?opts1 st x' p] o1 q by auto
  next
    case pinned
    then show ?thesis using heap_store_options[of e ?opts1 st x' p] h o1 by auto
  qed
  show "graph_ok C P st1" "evolves P st st1" "pending C P st1 = pending C P st"
    using heap_step_graph_ok[OF g cl pin] by simp_all
  have popts: "\<exists>q. map_of opts ''purpose'' = Some q \<and> q \<in> P" if "x = Inr (Proceed opts)" for opts
    using r
  proof (cases rule: resolve_options_outcomes)
    case (latest q)
    then show ?thesis using that last_purposes_in[OF g c latest(3)] by (simp add: update_conv')
  next
    case pinned
    then show ?thesis using that o1 default_purpose_has_purpose[of "entry_options e st"] by auto
  qed (use that in simp_all)
  show "\<And>opts p t. x = Inr (Proceed opts) \<Longrightarrow> setup_kwargs opts = Inr (p, t) \<Longrightarrow> p \<in> P"
    using popts by (fastforce simp: setup_kwargs_def split: if_splits)
  show "\<And>opts p. x = Inr (Proceed opts) \<Longrightarrow> generate_kwargs opts = Inr p \<Longrightarrow> p \<in> P"
    using popts by (fastforce simp: generate_kwargs_def split: if_splits)
qed

lemma returns_ok_Some:
  "graph_ok C P (state_of r) \<Longrightarrow> evolves P st (state_of r) \<Longrightarrow> returns_ok C P st (Some r)"
  by (simp add: returns_ok_def)

lemma returns_ok_weaken:
  "returns_ok C P s m \<Longrightarrow> evolves P st s \<Longrightarrow> returns_ok C P st m"
proof -
  assume a: "returns_ok C P s m" and b: "evolves P st s"
  from a obtain r where r: "m = Some r" "graph_ok C P (state_of r)" "evolves P s (state_of r)"
    unfolding returns_ok_def by (elim exE conjE)
  from evolves_trans[OF b r(3)] r(1,2) show ?thesis
    unfolding returns_ok_def by (intro exI[of _ r] conjI)
qed

lemma returns_ok_and_then:
  assumes "returns_ok C P st m"
    and "\<And>s. graph_ok C P s \<Longrightarrow> evolves P st s \<Longrightarrow> returns_ok C P s (f s)"
  shows "returns_ok C P st (and_then_fuel m f)"
proof -
  from assms(1) obtain r where r: "m = Some r" "graph_ok C P (state_of r)" "evolves P st (state_of r)"
    unfolding returns_ok_def by (elim exE conjE)
  show ?thesis
  proof (cases r)
    case (Done s)
    then have "returns_ok C P s (f s)" using assms(2) r by simp
    then show ?thesis
      using Done r returns_ok_weaken[of C P s "f s" st] by (simp add: and_then_fuel_def)
  next
    case (Raised e s)
    then show ?thesis using r by (simp add: and_then_fuel_def returns_ok_def)
  qed
qed

lemma returns_ok_quiet:
  "graph_ok C P st \<Longrightarrow> footprint (state_of r) = footprint st \<Longrightarrow> returns_ok C P st (Some r)"
  using footprint_graph_ok[of "state_of r" st C P] footprint_evolves[of "state_of r" st P]
  by (simp add: returns_ok_def)

lemma runs_okD:
  assumes "runs_ok C P setup n" "graph_ok C P s" "d \<in> C" "p \<in> P" "card (pending C P s) < n"
  shows "returns_ok C P s (setup d p t s)"
proof -
  from assms(1) have "graph_ok C P s \<and> d \<in> C \<and> p \<in> P \<and> card (pending C P s) < n \<longrightarrow>
        (\<exists>r. setup d p t s = Some r \<and> graph_ok C P (state_of r) \<and> evolves P s (state_of r))"
    unfolding runs_ok_def by (elim allE)
  with assms(2-5) show ?thesis unfolding returns_ok_def by (elim impE) (intro conjI)
qed

lemma setup_entry_runs:
  assumes rec: "runs_ok C P setup n" and g: "graph_ok C P st" and c: "c \<in> C"
    and e: "entry_ok C P (heap st) e"
    and kw: "\<And>p t. setup_kwargs opts = Inr (p, t) \<Longrightarrow> p \<in> P"
    and n: "card (pending C P st) < n"
  shows "returns_ok C P st (setup_entry setup c e opts st)"
proof (cases "entry_target e")
  case (ClassRef d)
  then have d: "d \<in> C" using e by (simp add: entry_ok_def)
  show ?thesis
  proof (cases "setup_kwargs opts")
    case (Inl err)
    then show ?thesis using ClassRef g by (simp add: setup_entry_def returns_ok_def)
  next
    case (Inr pt)
    obtain p t where pt: "pt = (p, t)" by (cases pt)
    have "returns_ok C P st (setup d p t st)"
      by (rule runs_okD[OF rec g d kw n]) (simp add: Inr pt)
    then show ?thesis using ClassRef Inr pt by (simp add: setup_entry_def)
  qed
next
  case (InterfaceDict a)
  then show ?thesis
    using generate_entry_step[OF g] by (simp add: setup_entry_def returns_ok_def)
next
  case (OtherClass s)
  then show ?thesis using g by (simp add: setup_entry_def returns_ok_def)
next
  case (OtherObject s)
  then show ?thesis using g by (simp add: setup_entry_def returns_ok_def)
qed

lemma setup_submodules_runs:
  assumes rec: "runs_ok C P setup n" and c: "c \<in> C"
  shows "graph_ok C P st \<Longrightarrow> \<forall>e\<in>set es. entry_ok C P (heap st) e \<Longrightarrow>
         card (pending C P st) < n \<Longrightarrow> returns_ok C P st (setup_submodules setup c es st)"
proof (induction es arbitrary: st)
  case Nil
  then show ?case by (simp add: returns_ok_def)
next
  case (Cons e es)
  obtain x st1 where r: "resolve_options c e st = (x, st1)" by (cases "resolve_options c e st")
  have e: "entry_ok C P (heap st) e" using Cons.prems(2) by simp
  note step = resolve_options_step[OF Cons.prems(1) c e r]
  have n1: "card (pending C P st1) < n" using step(3) Cons.prems(3) by simp
  have rest: "returns_ok C P s (setup_submodules setup c es s)"
    if "graph_ok C P s" "evolves P st s" for s
  proof (rule Cons.IH[OF that(1)])
    show "\<forall>e\<in>set es. entry_ok C P (heap s) e"
      using Cons.prems(2) entry_ok_evolves[OF _ that(2)] by simp
    show "card (pending C P s) < n"
      using card_pending_evolves[OF Cons.prems(1) that(2)] Cons.prems(3) by simp
  qed
  show ?case
  proof (cases x)
    case (Inl err)
    then show ?thesis using r step(1,2) by (simp add: returns_ok_def)
  next
    case (Inr req)
    show ?thesis
    proof (cases req)
      case Skip
      have "returns_ok C P st (setup_submodules setup c es st1)"
        by (rule returns_ok_weaken[OF rest[OF step(1,2)] step(2)])
      then show ?thesis using r Inr Skip by simp
    next
      case (Proceed opts)
      have ent: "returns_ok C P st1 (setup_entry setup c e opts st1)"
        by (rule setup_entry_runs[OF rec step(1) c entry_ok_evolves[OF e step(2)] _ n1])
           (rule step(4)[OF _], simp add: Inr Proceed)
      have "returns_ok C P st1
             (and_then_fuel (setup_entry setup c e opts st1) (\<lambda>st2. setup_submodules setup c es st2))"
        by (rule returns_ok_and_then[OF ent]) (rule rest, assumption, rule evolves_trans[OF step(2)])
      then have "returns_ok C P st
             (and_then_fuel (setup_entry setup c e opts st1) (\<lambda>st2. setup_submodules setup c es st2))"
        by (rule returns_ok_weaken[OF _ step(2)])
      then show ?thesis using r Inr Proceed by simp
    qed
  qed
qed

lemma specific_setup_runs:
  assumes rec: "runs_ok C P setup n" and c: "c \<in> C" and g: "graph_ok C P st"
    and n: "card (pending C P st) < n"
  shows "returns_ok C P st (specific_setup setup c st)"
proof -
  have es: "\<forall>e\<in>set (submodule_list (classes st c)). entry_ok C P (heap st) e"
    using g c by (simp add: graph_ok_def)
  have "returns_ok C P st (setup_submodules setup c (submodule_list (classes st c)) st)"
    by (rule setup_submodules_runs[OF rec c g es n])
  then show ?thesis
    unfolding specific_setup_def
    by (rule returns_ok_and_then) (simp add: returns_ok_quiet)
qed

lemma auto_add_settings_runs:
  assumes rec: "runs_ok C P setup n" and c: "c \<in> C" and g: "graph_ok C P st"
    and n: "card (pending C P st) < n"
  shows "returns_ok C P st (auto_add_settings E setup c st)"
proof -
  have first: "returns_ok C P st (Some (auto_add_version_macro E c st))"
    by (rule returns_ok_quiet[OF g]) simp
  have ctls: "iob_ctls \<in> C" using g by (simp add: graph_ok_def)
  have rest: "returns_ok C P s
        (if regs (classes s c) \<noteq> []
         then and_then_fuel
                (if name (classes s c) \<noteq> ''iob_ctls''
                 then (case get_setup_purpose c s of
                         Inl err \<Rightarrow> Some (Raised err s)
                       | Inr p \<Rightarrow> setup iob_ctls p False s)
                 else Some (Done s))
                (\<lambda>st2. Some (auto_add_interfaces c st2))
         else Some (Done s))"
    if gs: "graph_ok C P s" and ev: "evolves P st s" for s
  proof -
    have ns: "card (pending C P s) < n"
      using card_pending_evolves[OF g ev] n by simp
    have call: "returns_ok C P s
                (if name (classes s c) \<noteq> ''iob_ctls''
                 then (case get_setup_purpose c s of
                         Inl err \<Rightarrow> Some (Raised err s)
                       | Inr p \<Rightarrow> setup iob_ctls p False s)
                 else Some (Done s))"
    proof (cases "get_setup_purpose c s")
      case (Inl err)
      then show ?thesis using gs by (simp add: returns_ok_def)
    next
      case (Inr p)
      have "returns_ok C P s (setup iob_ctls p False s)"
        by (rule runs_okD[OF rec gs ctls last_purposes_in[OF gs c Inr] ns])
      then show ?thesis using Inr gs by (simp add: returns_ok_def)
    qed
    have "returns_ok C P s (and_then_fuel
                (if name (classes s c) \<noteq> ''iob_ctls''
                 then (case get_setup_purpose c s of
                         Inl err \<Rightarrow> Some (Raised err s)
                       | Inr p \<Rightarrow> setup iob_ctls p False s)
                 else Some (Done s))
                (\<lambda>st2. Some (auto_add_interfaces c st2)))"
      by (rule returns_ok_and_then[OF call]) (simp add: returns_ok_quiet)
    then show ?thesis using gs by (simp add: returns_ok_def)
  qed
  show ?thesis
    unfolding auto_add_settings_def
    by (rule returns_ok_and_then[OF first]) (rule rest)
qed

lemma post_setup_runs:
  assumes rec: "runs_ok C P setup n" and c: "c \<in> C" and g: "graph_ok C P st"
    and n: "card (pending C P st) < n"
  shows "returns_ok C P st (post_setup E setup c st)"
proof -
  have first: "returns_ok C P st
                 (Some (copy_srcs E c (emit (Call ''build_srcs.flows_setup'' [c]) st)))"
    by (rule returns_ok_quiet[OF g]) simp
  show ?thesis
    unfolding post_setup_def
  proof (rule returns_ok_and_then[OF first])
    fix s assume gs: "graph_ok C P s" and ev: "evolves P st s"
    have ns: "card (pending C P s) < n"
      using card_pending_evolves[OF g ev] n by simp
    show "returns_ok C P s
            (and_then_fuel (auto_add_settings E setup c s) (\<lambda>st2. Some (post_setup_tail E c st2)))"
      by (rule returns_ok_and_then[OF auto_add_settings_runs[OF rec c gs ns]])
         (simp add: returns_ok_quiet)
  qed
qed

lemma setup_body_runs:
  assumes rec: "runs_ok C P setup n"
  shows "runs_ok C P (setup_body E setup) (Suc n)"
  unfolding runs_ok_def
proof (intro allI impI, elim conjE)
  fix c p t st
  assume g: "graph_ok C P st" and c: "c \<in> C" and p: "p \<in> P"
    and n: "card (pending C P st) < Suc n"
  define st0 where "st0 = init_purposes c st"
  have f0: "footprint st0 = footprint st" by (simp add: st0_def)
  have g0: "graph_ok C P st0" using footprint_graph_ok[OF f0] g by simp
  have ev0: "evolves P st st0" by (rule footprint_evolves[OF f0])
  have n0: "card (pending C P st0) < Suc n" using footprint_pending[OF f0, of C P] n by simp
  have "returns_ok C P st0 (setup_body E setup c p t st)"
  proof (cases "p \<in> set (purposes c st0) \<or> ''hardware'' \<in> set (purposes c st0)")
    case True
    then show ?thesis using g0 by (simp add: setup_body_def st0_def[symmetric] returns_ok_def)
  next
    case False
    note rl = relinks_first_setup[of c st0 E t]
    have body: "returns_ok C P st0
           (and_then_fuel (Some (first_setup E c t st0))
             (\<lambda>st1. and_then_fuel (specific_setup setup c (add_purpose c p st1))
                       (\<lambda>st2. post_setup E setup c st2)))"
    proof (cases "first_setup E c t st0")
      case (Raised err s1)
      then show ?thesis
        using relinks_graph_ok[OF rl g0] relinks_evolves[OF rl, of P]
        by (simp add: and_then_fuel_def returns_ok_def)
    next
      case (Done s1)
      have r1: "relinks c st0 s1" using rl Done by simp
      have g1: "graph_ok C P s1" by (rule relinks_graph_ok[OF r1 g0])
      have pu: "purposes c s1 = purposes c st0" by (rule relinks_purposes[OF r1])
      let ?s2 = "add_purpose c p s1"
      have g2: "graph_ok C P ?s2" by (rule add_purpose_graph_ok[OF g1 p])
      have "card (pending C P ?s2) < card (pending C P s1)"
        by (rule add_purpose_pending[OF g1 c p]) (use False pu in simp_all)
      then have n2: "card (pending C P ?s2) < n"
        using n0 relinks_pending[OF r1, of C P] by simp
      have "returns_ok C P ?s2
              (and_then_fuel (specific_setup setup c ?s2) (\<lambda>st2. post_setup E setup c st2))"
      proof (rule returns_ok_and_then[OF specific_setup_runs[OF rec c g2 n2]])
        fix s3 assume g3: "graph_ok C P s3" and ev3: "evolves P ?s2 s3"
        have "card (pending C P s3) < n"
          using card_pending_evolves[OF g2 ev3] n2 by simp
        then show "returns_ok C P s3 (post_setup E setup c s3)"
          by (rule post_setup_runs[OF rec c g3])
      qed
      then have "returns_ok C P st0
              (and_then_fuel (specific_setup setup c ?s2) (\<lambda>st2. post_setup E setup c st2))"
        by (rule returns_ok_weaken)
           (rule evolves_trans[OF relinks_evolves[OF r1] add_purpose_evolves], use False pu in simp_all)
      then show ?thesis using Done by (simp add: and_then_fuel_def)
    qed
    show ?thesis using False body by (simp add: setup_body_def st0_def[symmetric])
  qed
  then show "\<exists>r. setup_body E setup c p t st = Some r \<and> graph_ok C P (state_of r)
                 \<and> evolves P st (state_of r)"
    using returns_ok_weaken[OF _ ev0] unfolding returns_ok_def by blast
qed


lemma setup_module_runs: "runs_ok C P (setup_module E n) n"
proof (induction n)
  case 0
  show ?case by (simp add: runs_ok_def)
next
  case (Suc n)
  then show ?case using setup_body_runs[of C P "setup_module E n" n E] by simp
qed


subsection \<open>Termination\<close>

text \<open>
  Claim C9. For every finite dependency graph \<open>C\<close>, cyclic or not, with the finite set
  \<open>P\<close> of its purposes, the setup of a class of \<open>C\<close> for a purpose of \<open>P\<close> returns or
  raises: \<open>__setup\<close> never nests deeper than the number of pairs of a class and a
  purpose, so any fuel above \<open>card C * card P\<close> is enough. The body appends the purpose
  before it sets up the submodules and the guard returns for a recorded purpose, so
  every run of the body takes a pair out of the pending ones for good: in the final
  state the recorded purposes of every class extend those of the start, unchanged where
  \<open>hardware\<close> was recorded, and without repetition where they had none.
\<close>

theorem setup_terminates:
  assumes "graph_ok C P st" "c \<in> C" "purpose \<in> P"
  shows "\<forall>n > card C * card P.
           \<exists>r. setup_module E n c purpose is_top st = Some r
               \<and> graph_ok C P (state_of r) \<and> evolves P st (state_of r)"
proof (intro allI impI)
  fix n assume "card C * card P < n"
  with card_pending_bound[OF assms(1)] have "card (pending C P st) < n" by simp
  from runs_okD[OF setup_module_runs assms this, of E is_top]
  show "\<exists>r. setup_module E n c purpose is_top st = Some r
               \<and> graph_ok C P (state_of r) \<and> evolves P st (state_of r)"
    unfolding returns_ok_def by blast
qed

lemma soc_graph_ok: "graph_ok soc_graph soc_purposes soc_state"
  unfolding graph_ok_def
  by (simp add: soc_graph_def soc_purposes_def soc_state_def soc_classes_def derived_def
      iob_module_def purposes_def entry_ok_def entry_target_def iob_ctls_def)

lemma soc_card: "card soc_graph * card soc_purposes = 10"
  by (simp add: soc_graph_def soc_purposes_def)

theorem setup_terminates_witness:
  "\<exists>r. setup_as_top_module example_env 11 ''iob_soc'' soc_state = Some r"
proof -
  have c: "''iob_soc'' \<in> soc_graph" by (simp add: soc_graph_def)
  have p: "''hardware'' \<in> soc_purposes" by (simp add: soc_purposes_def)
  from setup_terminates[OF soc_graph_ok c p, of example_env True]
  have "\<exists>r. setup_module example_env 11 ''iob_soc'' ''hardware'' True soc_state = Some r
            \<and> graph_ok soc_graph soc_purposes (state_of r)
            \<and> evolves soc_purposes soc_state (state_of r)"
    unfolding soc_card by simp
  then show ?thesis unfolding setup_as_top_module_def by blast
qed


section \<open>The guard of __setup\<close>

lemma init_purposes_recorded: "purposes c st \<noteq> [] \<Longrightarrow> init_purposes c st = st"
  by (auto simp: init_purposes_def purposes_def split: option.splits)

text \<open>
  Claim C1. For every class and every purpose, \<open>__setup\<close> called when that purpose is
  already in the list of setup purposes of the class, or when \<open>hardware\<close> is in that list,
  returns at once with the state as it was: no purpose is appended, the attributes are not
  initialised, no call that writes a file is made (the trace of calls is part of the
  state). Consequently, over any run of \<open>__setup\<close> in a closed graph of classes, the list
  of purposes of every class only grows at its end, it stays without repetition, and it
  does not change once it holds \<open>hardware\<close>: a class is set up at most once for each
  purpose, and not again after \<open>hardware\<close>.
\<close>

theorem setup_guard_returns:
  "(purpose \<in> set (purposes c st) \<or> ''hardware'' \<in> set (purposes c st) \<longrightarrow>
      setup_module E (Suc n) c purpose is_top st = Some (Done st))
   \<and> (graph_ok C P st \<and> d \<in> C \<and> q \<in> P \<and> card C * card P < m \<longrightarrow>
        (\<exists>r. setup_module E m d q t st = Some r
           \<and> (\<forall>k. prefix (purposes k st) (purposes k (state_of r))
                 \<and> (''hardware'' \<in> set (purposes k st) \<longrightarrow>
                      purposes k (state_of r) = purposes k st)
                 \<and> (distinct (purposes k st) \<longrightarrow> distinct (purposes k (state_of r))))))"
proof (intro conjI impI)
  assume g: "purpose \<in> set (purposes c st) \<or> ''hardware'' \<in> set (purposes c st)"
  then have "purposes c st \<noteq> []" by auto
  then have "init_purposes c st = st" by (rule init_purposes_recorded)
  with g show "setup_module E (Suc n) c purpose is_top st = Some (Done st)"
    by (simp add: setup_body_def)
next
  assume a: "graph_ok C P st \<and> d \<in> C \<and> q \<in> P \<and> card C * card P < m"
  with card_pending_bound[of C P st] have n: "card (pending C P st) < m" by simp
  from a runs_okD[OF setup_module_runs _ _ _ n, of d q E t]
  obtain r where r: "setup_module E m d q t st = Some r" and ev: "evolves P st (state_of r)"
    unfolding returns_ok_def by blast
  show "\<exists>r. setup_module E m d q t st = Some r
           \<and> (\<forall>k. prefix (purposes k st) (purposes k (state_of r))
                 \<and> (''hardware'' \<in> set (purposes k st) \<longrightarrow>
                      purposes k (state_of r) = purposes k st)
                 \<and> (distinct (purposes k st) \<longrightarrow> distinct (purposes k (state_of r))))"
    using r evolves_purposes(1-3)[OF ev] by blast
qed

text \<open>
  \<open>iob_uart\<close>, set up for \<open>hardware\<close>, is left as it is by a setup for \<open>simulation\<close> and by
  a second one for \<open>hardware\<close>; the run of the cyclic graph of \<open>iob_soc\<close> keeps its list of
  purposes without repetition.
\<close>

lemma uart_done_purposes: "purposes ''iob_uart'' uart_done = [''hardware'']"
  by (simp add: uart_done_def purposes_def)

theorem setup_guard_returns_witness:
  "setup_module example_env 1 ''iob_uart'' ''simulation'' False uart_done = Some (Done uart_done)
   \<and> setup_module example_env 1 ''iob_uart'' ''hardware'' True uart_done = Some (Done uart_done)
   \<and> (\<exists>r. setup_module example_env 11 ''iob_soc'' ''hardware'' True soc_state = Some r
          \<and> distinct (purposes ''iob_uart'' (state_of r)))"
proof -
  have a: "setup_module example_env 1 ''iob_uart'' ''simulation'' False uart_done = Some (Done uart_done)"
    using setup_guard_returns[of "''simulation''" "''iob_uart''" uart_done example_env 0 False]
    by (simp add: uart_done_purposes)
  have b: "setup_module example_env 1 ''iob_uart'' ''hardware'' True uart_done = Some (Done uart_done)"
    using setup_guard_returns[of "''hardware''" "''iob_uart''" uart_done example_env 0 True]
    by (simp add: uart_done_purposes)
  have c: "''iob_soc'' \<in> soc_graph" by (simp add: soc_graph_def)
  have p: "''hardware'' \<in> soc_purposes" by (simp add: soc_purposes_def)
  have d: "distinct (purposes ''iob_uart'' soc_state)"
    by (simp add: purposes_def soc_state_def soc_classes_def derived_def iob_module_def)
  have "\<exists>r. setup_module example_env 11 ''iob_soc'' ''hardware'' True soc_state = Some r
           \<and> (\<forall>k. prefix (purposes k soc_state) (purposes k (state_of r))
                 \<and> (''hardware'' \<in> set (purposes k soc_state) \<longrightarrow>
                      purposes k (state_of r) = purposes k soc_state)
                 \<and> (distinct (purposes k soc_state) \<longrightarrow> distinct (purposes k (state_of r))))"
    using setup_guard_returns[where st = soc_state and C = soc_graph and P = soc_purposes
      and d = "''iob_soc''" and q = "''hardware''" and m = 11 and E = example_env and t = True
      and purpose = "''hardware''" and c = "''iob_soc''" and n = 0 and is_top = True]
      soc_graph_ok c p soc_card
    by simp
  with d have "\<exists>r. setup_module example_env 11 ''iob_soc'' ''hardware'' True soc_state = Some r
          \<and> distinct (purposes ''iob_uart'' (state_of r))"
    by blast
  with a b show ?thesis by blast
qed

section \<open>The purposes of the submodules\<close>

lemma store_options_twice [simp]:
  "store_options e o2 (store_options e o1 st) = store_options e o2 st"
  by (cases e) (simp_all add: store_options_def)

lemma store_options_same: "store_options e (entry_options e st) st = st"
  by (cases e) (simp_all add: store_options_def entry_options_def)

lemma default_purpose_present:
  "map_of opts ''purpose'' = Some p \<Longrightarrow> default_purpose opts = opts"
  by (auto simp: default_purpose_def map_of_eq_None_iff[symmetric])

lemma requested_purpose_default:
  "map_of (default_purpose (entry_options e st)) ''purpose'' = Some (requested_purpose e st)"
  by (simp add: default_purpose_value requested_purpose_def split: option.splits)

lemma setup_submodules_step:
  "setup_submodules setup c (e # es) st =
     (if requested_purpose e st = ''hardware'' then
        (case get_setup_purpose c st of
           Inl err \<Rightarrow> Some (Raised err (store_options e (default_purpose (entry_options e st)) st))
         | Inr latest \<Rightarrow>
             and_then_fuel
               (setup_entry setup c e
                  (AList.update ''purpose'' latest (default_purpose (entry_options e st)))
                  (store_options e
                     (AList.update ''purpose'' latest (default_purpose (entry_options e st))) st))
               (setup_submodules setup c es))
      else if is_top_module (classes st c) then
        and_then_fuel (setup_entry setup c e (entry_options e st) st) (setup_submodules setup c es)
      else setup_submodules setup c es st)"
proof -
  obtain x st1 where r: "resolve_options c e st = (x, st1)" by (cases "resolve_options c e st")
  note rq = requested_purpose_default[of e st]
  have same: "requested_purpose e st \<noteq> ''hardware'' \<Longrightarrow>
      default_purpose (entry_options e st) = entry_options e st"
    by (auto simp: requested_purpose_def split: option.splits intro: default_purpose_present)
  from r show ?thesis
  proof (cases rule: resolve_options_outcomes)
    case skip
    then show ?thesis using r rq same by (simp add: store_options_same)
  next
    case (raise err)
    then show ?thesis using r rq by simp
  next
    case (latest p)
    then show ?thesis using r rq by simp
  next
    case pinned
    then show ?thesis using r rq same by (simp add: store_options_same)
  qed
qed

text \<open>
  Claim C2. When \<open>_setup_submodules\<close> comes to an entry of the list of a class that has a
  latest setup purpose: an entry whose requested purpose is \<open>hardware\<close>, given or by
  default, is set up with the latest purpose of the class in place of \<open>hardware\<close>, which is
  also stored in its options; an entry that requests another purpose is set up with its
  own options, so with that purpose, when the class is the top module, and is passed
  over when it is not: the loop goes on with the rest of the list in the same state.
  Setting up an entry whose target is a class is a call of \<open>__setup\<close> of that class with
  the purpose of the options, and for an interface dictionary a call of \<open>__generate\<close> with
  that purpose.
\<close>

theorem setup_submodules_purpose:
  assumes "get_setup_purpose c st = Inr latest"
  shows "setup_submodules setup c (e # es) st =
     (if requested_purpose e st = ''hardware'' then
        and_then_fuel
          (setup_entry setup c e
             (AList.update ''purpose'' latest (default_purpose (entry_options e st)))
             (store_options e
                (AList.update ''purpose'' latest (default_purpose (entry_options e st))) st))
          (setup_submodules setup c es)
      else if is_top_module (classes st c) then
        and_then_fuel (setup_entry setup c e (entry_options e st) st) (setup_submodules setup c es)
      else setup_submodules setup c es st)
   \<and> map_of (AList.update ''purpose'' latest (default_purpose (entry_options e st))) ''purpose''
       = Some latest
   \<and> (requested_purpose e st \<noteq> ''hardware'' \<longrightarrow>
        map_of (entry_options e st) ''purpose'' = Some (requested_purpose e st))
   \<and> (\<forall>d opts s. entry_target e = ClassRef d
          \<and> fst ` set opts \<subseteq> {''purpose'', ''is_top_module''} \<longrightarrow>
        setup_entry setup c e opts s
          = setup d (case map_of opts ''purpose'' of None \<Rightarrow> ''hardware'' | Some p \<Rightarrow> p)
              (requested_top opts) s)
   \<and> (\<forall>a opts s. entry_target e = InterfaceDict a \<and> fst ` set opts \<subseteq> {''purpose''} \<longrightarrow>
        setup_entry setup c e opts s
          = Some (case generate (heap s a)
                         (case map_of opts ''purpose'' of None \<Rightarrow> ''hardware'' | Some p \<Rightarrow> p) of
                    Inl err \<Rightarrow> Raised err s
                  | Inr d \<Rightarrow> Done (s\<lparr>heap := (heap s)(a := d)\<rparr>)))"
proof (intro conjI allI impI)
  show "setup_submodules setup c (e # es) st =
     (if requested_purpose e st = ''hardware'' then
        and_then_fuel
          (setup_entry setup c e
             (AList.update ''purpose'' latest (default_purpose (entry_options e st)))
             (store_options e
                (AList.update ''purpose'' latest (default_purpose (entry_options e st))) st))
          (setup_submodules setup c es)
      else if is_top_module (classes st c) then
        and_then_fuel (setup_entry setup c e (entry_options e st) st) (setup_submodules setup c es)
      else setup_submodules setup c es st)"
    using assms by (simp add: setup_submodules_step del: setup_submodules.simps)
  show "map_of (AList.update ''purpose'' latest (default_purpose (entry_options e st))) ''purpose''
       = Some latest"
    by (simp add: update_conv')
next
  assume "requested_purpose e st \<noteq> ''hardware''"
  then show "map_of (entry_options e st) ''purpose'' = Some (requested_purpose e st)"
    by (auto simp: requested_purpose_def split: option.splits)
next
  fix d and opts :: "(string \<times> string) list" and s
  assume "entry_target e = ClassRef d \<and> fst ` set opts \<subseteq> {''purpose'', ''is_top_module''}"
  then show "setup_entry setup c e opts s
          = setup d (case map_of opts ''purpose'' of None \<Rightarrow> ''hardware'' | Some p \<Rightarrow> p)
              (requested_top opts) s"
    by (auto simp: setup_entry_def setup_kwargs_def requested_top_def)
next
  fix a and opts :: "(string \<times> string) list" and s
  assume "entry_target e = InterfaceDict a \<and> fst ` set opts \<subseteq> {''purpose''}"
  then show "setup_entry setup c e opts s
          = Some (case generate (heap s a)
                         (case map_of opts ''purpose'' of None \<Rightarrow> ''hardware'' | Some p \<Rightarrow> p) of
                    Inl err \<Rightarrow> Raised err s
                  | Inr d \<Rightarrow> Done (s\<lparr>heap := (heap s)(a := d)\<rparr>))"
    by (auto simp: setup_entry_def generate_entry_def generate_kwargs_def)
qed

text \<open>
  With a stand-in for \<open>__setup\<close> that records its calls: \<open>iob_uart\<close>, set up for
  \<open>simulation\<close>, sets up \<open>iob_fifo\<close> and \<open>iob_ctls\<close> for \<open>simulation\<close>; the top module
  \<open>iob_soc\<close> sets up \<open>iob_tb\<close> for the \<open>simulation\<close> it asks for; \<open>iob_uart\<close>, not the top
  module, passes over an entry that asks for \<open>simulation\<close>.
\<close>

theorem setup_submodules_purpose_witness:
  "setup_submodules recorded_setup ''iob_uart''
       [Tuple (ClassRef ''iob_fifo'') 1, Plain (ClassRef ''iob_ctls'')] uart_simulation
     = Some (Done (emit (Call ''__setup'' [''iob_ctls'', ''simulation''])
         (emit (Call ''__setup'' [''iob_fifo'', ''simulation''])
            (uart_simulation\<lparr>heap := (heap uart_simulation)
                                 (1 := [(''purpose'', ''simulation'')])\<rparr>))))
   \<and> setup_submodules recorded_setup ''iob_soc''
       [Tuple (ClassRef ''iob_tb'') 0] soc_top
     = Some (Done (emit (Call ''__setup'' [''iob_tb'', ''simulation'']) soc_top))
   \<and> setup_submodules recorded_setup ''iob_uart''
       [Tuple (ClassRef ''iob_fifo'') 1] uart_fpga
     = Some (Done uart_fpga)"
proof -
  have a: "get_setup_purpose ''iob_uart'' uart_simulation = Inr ''simulation''"
    by (simp add: get_setup_purpose_def uart_simulation_def)
  have a1: "requested_purpose (Tuple (ClassRef ''iob_fifo'') (Suc 0)) uart_simulation = ''hardware''"
    by (simp add: requested_purpose_def entry_options_def uart_simulation_def soc_state_def)
  have a2: "entry_options (Tuple (ClassRef ''iob_fifo'') (Suc 0)) uart_simulation = []"
    by (simp add: entry_options_def uart_simulation_def soc_state_def)
  have b: "get_setup_purpose ''iob_soc'' soc_top = Inr ''simulation''"
    by (simp add: get_setup_purpose_def soc_top_def)
  have b1: "requested_purpose (Tuple (ClassRef ''iob_tb'') 0) soc_top = ''simulation''"
    by (simp add: requested_purpose_def entry_options_def soc_top_def soc_state_def)
  have b2: "entry_options (Tuple (ClassRef ''iob_tb'') 0) soc_top = [(''purpose'', ''simulation'')]"
    by (simp add: entry_options_def soc_top_def soc_state_def)
  have b3: "is_top_module (classes soc_top ''iob_soc'')"
    by (simp add: soc_top_def)
  have c: "get_setup_purpose ''iob_uart'' uart_fpga = Inr ''fpga''"
    by (simp add: get_setup_purpose_def uart_fpga_def)
  have c1: "requested_purpose (Tuple (ClassRef ''iob_fifo'') (Suc 0)) uart_fpga = ''simulation''"
    by (simp add: requested_purpose_def entry_options_def uart_fpga_def soc_state_def)
  have c3: "\<not> is_top_module (classes uart_fpga ''iob_uart'')"
    by (simp add: uart_fpga_def soc_classes_def derived_def iob_module_def)
  define st1 where
    "st1 = uart_simulation\<lparr>heap := (heap uart_simulation)(Suc 0 := [(''purpose'', ''simulation'')])\<rparr>"
  define st2 where "st2 = emit (Call ''__setup'' [''iob_fifo'', ''simulation'']) st1"
  have d: "get_setup_purpose ''iob_uart'' st2 = Inr ''simulation''"
    by (simp add: get_setup_purpose_def uart_simulation_def st1_def st2_def emit_def)
  have d1: "requested_purpose (Plain (ClassRef ''iob_ctls'')) st2 = ''hardware''"
    by (simp add: requested_purpose_def entry_options_def)
  have w: "setup_submodules recorded_setup ''iob_uart'' [Plain (ClassRef ''iob_ctls'')] st2
     = Some (Done (emit (Call ''__setup'' [''iob_ctls'', ''simulation'']) st2))"
    using setup_submodules_purpose[of "''iob_uart''" st2 "''simulation''" recorded_setup
        "Plain (ClassRef ''iob_ctls'')" "[]", OF d]
    by (simp add: d1 entry_options_def default_purpose_def store_options_def and_then_fuel_def
        setup_entry_def entry_target_def setup_kwargs_def recorded_setup_def
        del: setup_submodules.simps(2))
  have x: "setup_submodules recorded_setup ''iob_uart''
       [Tuple (ClassRef ''iob_fifo'') (Suc 0), Plain (ClassRef ''iob_ctls'')] uart_simulation
     = Some (Done (emit (Call ''__setup'' [''iob_ctls'', ''simulation''])
         (emit (Call ''__setup'' [''iob_fifo'', ''simulation''])
            (uart_simulation\<lparr>heap := (heap uart_simulation)
                                 (Suc 0 := [(''purpose'', ''simulation'')])\<rparr>))))"
    using setup_submodules_purpose[of "''iob_uart''" uart_simulation "''simulation''" recorded_setup
        "Tuple (ClassRef ''iob_fifo'') (Suc 0)" "[Plain (ClassRef ''iob_ctls'')]", OF a]
      w[unfolded st2_def st1_def]
    by (simp add: a1 a2 default_purpose_def store_options_def and_then_fuel_def
        setup_entry_def entry_target_def setup_kwargs_def recorded_setup_def
        del: setup_submodules.simps(2))
  have y: "setup_submodules recorded_setup ''iob_soc''
       [Tuple (ClassRef ''iob_tb'') 0] soc_top
     = Some (Done (emit (Call ''__setup'' [''iob_tb'', ''simulation'']) soc_top))"
    using setup_submodules_purpose[of "''iob_soc''" soc_top "''simulation''" recorded_setup
        "Tuple (ClassRef ''iob_tb'') 0" "[]", OF b]
    by (simp add: b1 b2 b3 and_then_fuel_def
        setup_entry_def entry_target_def setup_kwargs_def recorded_setup_def
        del: setup_submodules.simps(2))
  have z: "setup_submodules recorded_setup ''iob_uart''
       [Tuple (ClassRef ''iob_fifo'') (Suc 0)] uart_fpga
     = Some (Done uart_fpga)"
    using setup_submodules_purpose[of "''iob_uart''" uart_fpga "''fpga''" recorded_setup
        "Tuple (ClassRef ''iob_fifo'') (Suc 0)" "[]", OF c]
    by (simp add: c1 c3 del: setup_submodules.simps(2))
  from x y z show ?thesis by simp
qed

end
